theory Spec2Isabelle
  imports Main
begin

section \<open>Python values used by the checkpoint code\<close>

text \<open>
  The functions of \<^verbatim>\<open>mesh_tensorflow/transformer/utils.py\<close> that resolve checkpoints and
  remap variable names work on Python strings, unbounded integers, lists and dictionaries.
  Strings are modelled as \<open>string\<close> (names and paths are taken to be ASCII, so that the
  regular-expression class \<^verbatim>\<open>\d\<close> is the ten digits), integers as \<open>int\<close>, a dictionary as
  an association list in insertion order. Every \<^verbatim>\<open>raise\<close> of the source is a value of the
  type \<open>error\<close>; a function that can raise returns \<open>error + 'a\<close>.
\<close>

datatype value_error =
    Invalid_checkpoint_to_load
  | Invalid_checkpoint_path string
  | No_checkpoint_files_found string
  | None_were_found
  | Unpack_mismatch

datatype error = ValueError value_error | KeyError string | IndexError

definition bind_err :: "error + 'a \<Rightarrow> ('a \<Rightarrow> error + 'b) \<Rightarrow> error + 'b" where
  "bind_err r f = (case r of Inl e \<Rightarrow> Inl e | Inr x \<Rightarrow> f x)"

definition newline :: char where
  "newline = CHR 0x0A"

definition is_digit :: "char \<Rightarrow> bool" where
  "is_digit c = (48 \<le> (of_char c :: nat) \<and> (of_char c :: nat) \<le> 57)"

definition digit_val :: "char \<Rightarrow> nat" where
  "digit_val c = of_char c - 48"

definition digit_char :: "nat \<Rightarrow> char" where
  "digit_char n = ''0123456789'' ! n"

text \<open>\<^verbatim>\<open>str(n)\<close> and \<^verbatim>\<open>"{}".format(n)\<close> for an integer: decimal digits, a minus sign first.\<close>

fun str_nat :: "nat \<Rightarrow> string" where
  "str_nat n = (if n < 10 then [digit_char n] else str_nat (n div 10) @ [digit_char (n mod 10)])"

declare str_nat.simps [simp del]

definition py_str :: "int \<Rightarrow> string" where
  "py_str i = (if i < 0 then CHR ''-'' # str_nat (nat (- i)) else str_nat (nat i))"

definition zfill :: "nat \<Rightarrow> string \<Rightarrow> string" where
  "zfill w s = replicate (w - length s) (CHR ''0'') @ s"

text \<open>\<^verbatim>\<open>"{:0=3d}".format(i)\<close>: width 3, zeros between the sign and the digits.\<close>

definition format_03d :: "int \<Rightarrow> string" where
  "format_03d i =
     (if i < 0 then CHR ''-'' # zfill 2 (str_nat (nat (- i))) else zfill 3 (str_nat (nat i)))"

text \<open>\<^verbatim>\<open>int(s)\<close> on a string of digits, as the regular expressions hand it over.\<close>

definition int_of_digits :: "string \<Rightarrow> int" where
  "int_of_digits s = int (foldl (\<lambda>a c. 10 * a + digit_val c) 0 s)"

text \<open>\<^verbatim>\<open>s.startswith(p)\<close>, \<^verbatim>\<open>sub in s\<close>, \<^verbatim>\<open>s.split(sep)\<close> and \<^verbatim>\<open>s.replace(old, new)\<close>.
  The source splits on the literals \<^verbatim>\<open>"/"\<close> and \<^verbatim>\<open>".*"\<close> only, so the separator is never
  empty (Python raises on an empty one).\<close>

definition startswith :: "string \<Rightarrow> string \<Rightarrow> bool" where
  "startswith s p = (take (length p) s = p)"

fun py_in :: "string \<Rightarrow> string \<Rightarrow> bool" where
  "py_in sub [] = (sub = [])"
| "py_in sub (c # cs) = (startswith (c # cs) sub \<or> py_in sub cs)"

function py_split :: "string \<Rightarrow> string \<Rightarrow> string list" where
  "py_split sep [] = [[]]"
| "py_split sep (c # cs) =
     (if sep \<noteq> [] \<and> startswith (c # cs) sep
      then [] # py_split sep (drop (length sep) (c # cs))
      else (let r = py_split sep cs in (c # hd r) # tl r))"
  by pat_completeness auto
termination
  by (relation "measure (\<lambda>(sep, s). length s)") auto

function py_replace :: "string \<Rightarrow> string \<Rightarrow> string \<Rightarrow> string" where
  "py_replace old new [] = (if old = [] then new else [])"
| "py_replace old new (c # cs) =
     (if old = [] then new @ c # py_replace old new cs
      else if startswith (c # cs) old
      then new @ py_replace old new (drop (length old) (c # cs))
      else c # py_replace old new cs)"
  by pat_completeness auto
termination
  by (relation "measure (\<lambda>(old, new, s). length s)") auto

text \<open>\<^verbatim>\<open>os.path.join(a, b)\<close> on POSIX, for two components.\<close>

definition path_join :: "string \<Rightarrow> string \<Rightarrow> string" where
  "path_join a b =
     (if startswith b ''/'' then b
      else if a = [] \<or> last a = CHR ''/'' then a @ b
      else a @ ''/'' @ b)"

text \<open>\<^verbatim>\<open>range(n)\<close>, and \<^verbatim>\<open>n or 1\<close> for an optional integer (\<^verbatim>\<open>None\<close> and \<open>0\<close> are falsy).\<close>

definition py_range :: "int \<Rightarrow> int list" where
  "py_range n = [0..n - 1]"

definition or_1 :: "int option \<Rightarrow> int" where
  "or_1 n = (case n of None \<Rightarrow> 1 | Some k \<Rightarrow> if k = 0 then 1 else k)"

text \<open>\<^verbatim>\<open>d[k] = v\<close> on a dictionary: a present key keeps its place, a new key goes last.\<close>

fun dict_set :: "('k \<times> 'v) list \<Rightarrow> 'k \<Rightarrow> 'v \<Rightarrow> ('k \<times> 'v) list" where
  "dict_set [] k v = [(k, v)]"
| "dict_set ((k', v') # d) k v = (if k' = k then (k, v) # d else (k', v') # dict_set d k v)"

definition dict_keys :: "('k \<times> 'v) list \<Rightarrow> 'k set" where
  "dict_keys d = fst ` set d"

section \<open>CorrespondenceBuilder\<close>

text \<open>
  \<^verbatim>\<open>_build_ckpt_to_local_var_name_mapping\<close>. The nested \<^verbatim>\<open>for\<close> loops append one pattern
  per (block, layer) pair in row-major order; the loop over the current model's layers
  skips a layer listed in \<^verbatim>\<open>new_layers\<close>. Unequal lengths raise the \<^verbatim>\<open>ValueError\<close> that the
  specification calls StructuralMismatch. The dictionary is filled from the zipped lists.
\<close>

definition build_regex :: "string option \<Rightarrow> int \<Rightarrow> int \<Rightarrow> int option \<Rightarrow> string" where
  "build_regex regex_prefix layer_num block_num num_blocks =
     (let base_regex = ''layer_'' @ format_03d layer_num;
          base_regex = (case num_blocks of None \<Rightarrow> base_regex
                        | Some _ \<Rightarrow> ''block_'' @ format_03d block_num @ ''/'' @ base_regex);
          base_regex = (case regex_prefix of None \<Rightarrow> base_regex
                        | Some p \<Rightarrow> p @ ''.*'' @ base_regex)
      in base_regex)"

definition is_new_layer :: "int list option \<Rightarrow> int \<Rightarrow> bool" where
  "is_new_layer new_layers layer_num =
     (case new_layers of None \<Rightarrow> False | Some ls \<Rightarrow> layer_num \<in> set ls)"

definition all_ckpt_name_regexes :: "string option \<Rightarrow> int option \<Rightarrow> int \<Rightarrow> string list" where
  "all_ckpt_name_regexes regex_prefix ckpt_num_blocks ckpt_num_layers =
     concat (map (\<lambda>block_num.
        map (\<lambda>layer_num. build_regex regex_prefix layer_num block_num ckpt_num_blocks)
          (py_range ckpt_num_layers))
      (py_range (or_1 ckpt_num_blocks)))"

definition all_local_name_regexes ::
  "string option \<Rightarrow> int option \<Rightarrow> int \<Rightarrow> int list option \<Rightarrow> string list" where
  "all_local_name_regexes regex_prefix local_num_blocks local_num_layers new_layers =
     concat (map (\<lambda>block_num.
        map (\<lambda>layer_num. build_regex regex_prefix layer_num block_num local_num_blocks)
          (filter (\<lambda>layer_num. \<not> is_new_layer new_layers layer_num)
             (py_range local_num_layers)))
      (py_range (or_1 local_num_blocks)))"

definition build_ckpt_to_local_var_name_mapping ::
  "int option \<Rightarrow> int \<Rightarrow> int option \<Rightarrow> int \<Rightarrow> int list option \<Rightarrow> string option
     \<Rightarrow> error + (string \<times> string) list" where
  "build_ckpt_to_local_var_name_mapping ckpt_num_blocks ckpt_num_layers local_num_blocks
       local_num_layers new_layers regex_prefix =
     (let cs = all_ckpt_name_regexes regex_prefix ckpt_num_blocks ckpt_num_layers;
          ls = all_local_name_regexes regex_prefix local_num_blocks local_num_layers new_layers
      in if length cs \<noteq> length ls then Inl (ValueError Invalid_checkpoint_to_load)
         else Inr (fold (\<lambda>(ckpt_var_name, local_var_name) d.
                      dict_set d ckpt_var_name local_var_name) (zip cs ls) []))"

section \<open>Regular expressions of the source\<close>

text \<open>
  \<^verbatim>\<open>re.match(pattern, s)\<close> for the patterns that \<^verbatim>\<open>build_regex\<close> emits with the prefixes
  its callers pass (\<^verbatim>\<open>None\<close>, \<^verbatim>\<open>"encoder/"\<close>, \<^verbatim>\<open>"decoder/"\<close>): literal characters and the
  wildcard \<^verbatim>\<open>.*\<close>, which stands for any run of characters other than a line break. The
  match is anchored at the start of \<open>s\<close> and may end anywhere. Other metacharacters are
  outside this pattern language.
\<close>

fun re_match :: "string \<Rightarrow> string \<Rightarrow> bool" where
  "re_match [] s = True"
| "re_match (a # p) [] = (a = CHR ''.'' \<and> take 1 p = ''*'' \<and> re_match (drop 1 p) [])"
| "re_match (a # p) (c # cs) =
     (if a = CHR ''.'' \<and> take 1 p = ''*''
      then re_match (drop 1 p) (c # cs) \<or> (c \<noteq> newline \<and> re_match (a # p) cs)
      else a = c \<and> re_match p cs)"

text \<open>
  \<^verbatim>\<open>re.findall\<close> with the patterns of \<^verbatim>\<open>_compute_num_blocks_and_layer\<close>. For
  \<^verbatim>\<open>layer_(\d{3})\<close> and \<^verbatim>\<open>block_(\d{3})\<close> the scan reports the three digits at every place
  where the token and three digits stand, and goes on behind them. For
  \<^verbatim>\<open>encoder/.*layer_(\d{3})\<close> and its kin the greedy wildcard runs to the last such place
  of the line that the prefix starts, so one match reports that last place only; the scan
  goes on behind it.
\<close>

definition tok_group :: "string \<Rightarrow> string \<Rightarrow> string" where
  "tok_group tok s = take 3 (drop (length tok) s)"

definition tok_at :: "string \<Rightarrow> string \<Rightarrow> bool" where
  "tok_at tok s =
     (startswith s tok \<and> length (tok_group tok s) = 3 \<and> list_all is_digit (tok_group tok s))"

function findall_tok :: "string \<Rightarrow> string \<Rightarrow> string list" where
  "findall_tok tok [] = []"
| "findall_tok tok (c # cs) =
     (if tok_at tok (c # cs)
      then tok_group tok (c # cs) # findall_tok tok (drop (length tok + 3) (c # cs))
      else findall_tok tok cs)"
  by pat_completeness auto
termination
  by (relation "measure (\<lambda>(tok, s). length s)") auto

fun last_tok :: "string \<Rightarrow> string \<Rightarrow> (string \<times> string) option" where
  "last_tok tok [] = None"
| "last_tok tok (c # cs) =
     (case (if c = newline then None else last_tok tok cs) of
        Some r \<Rightarrow> Some r
      | None \<Rightarrow>
          if tok_at tok (c # cs)
          then Some (tok_group tok (c # cs), drop (length tok + 3) (c # cs))
          else None)"

lemma last_tok_shorter: "last_tok tok s = Some (d, rest) \<Longrightarrow> length rest < length s"
proof (induction s)
  case Nil
  then show ?case by simp
next
  case (Cons c cs)
  show ?case
  proof (cases "if c = newline then None else last_tok tok cs")
    case None
    with Cons.prems show ?thesis by (auto split: if_splits)
  next
    case (Some r)
    with Cons.prems have "last_tok tok cs = Some (d, rest)" by (auto split: if_splits)
    with Cons.IH show ?thesis by simp
  qed
qed

function findall_prefixed :: "string \<Rightarrow> string \<Rightarrow> string \<Rightarrow> string list" where
  "findall_prefixed pfx tok [] = []"
| "findall_prefixed pfx tok (c # cs) =
     (if startswith (c # cs) pfx
      then (case last_tok tok (drop (length pfx) (c # cs)) of
              Some (d, rest) \<Rightarrow> d # findall_prefixed pfx tok rest
            | None \<Rightarrow> findall_prefixed pfx tok cs)
      else findall_prefixed pfx tok cs)"
  by pat_completeness auto
termination
proof (relation "measure (\<lambda>(pfx, tok, s). length s)")
  fix pfx tok :: string and c cs x2 x y
  assume "startswith (c # cs) pfx"
    and "last_tok tok (drop (length pfx) (c # cs)) = Some x2" and "(x, y) = x2"
  then have "length y < length (drop (length pfx) (c # cs))"
    using last_tok_shorter [of tok "drop (length pfx) (c # cs)" x y] by simp
  then show "((pfx, tok, y), pfx, tok, c # cs) \<in> measure (\<lambda>(pfx, tok, s). length s)"
    by simp
qed auto

definition re_findall :: "string option \<Rightarrow> string \<Rightarrow> string \<Rightarrow> string list" where
  "re_findall pfx tok s =
     (case pfx of None \<Rightarrow> findall_tok tok s | Some p \<Rightarrow> findall_prefixed p tok s)"

section \<open>StepCodec\<close>

text \<open>
  \<^verbatim>\<open>get_step_from_checkpoint_path\<close> matches \<^verbatim>\<open>.*model\.ckpt\-(\d+).*\<close> at the start of the
  path. The first wildcard is greedy and cannot cross a line break, so the group is the
  longest run of digits behind the last \<^verbatim>\<open>model.ckpt-\<close> of the first line that a digit
  follows. \<^verbatim>\<open>_get_checkpoint_path\<close> joins the directory and \<^verbatim>\<open>model.ckpt-<step>\<close>.
\<close>

definition ckpt_step_at :: "string \<Rightarrow> string option" where
  "ckpt_step_at s =
     (if startswith s ''model.ckpt-'' \<and> takeWhile is_digit (drop 11 s) \<noteq> []
      then Some (takeWhile is_digit (drop 11 s)) else None)"

fun match_ckpt_step :: "string \<Rightarrow> string option" where
  "match_ckpt_step [] = None"
| "match_ckpt_step (c # cs) =
     (case (if c = newline then None else match_ckpt_step cs) of
        Some d \<Rightarrow> Some d
      | None \<Rightarrow> ckpt_step_at (c # cs))"

definition get_step_from_checkpoint_path :: "string \<Rightarrow> error + int" where
  "get_step_from_checkpoint_path checkpoint_path =
     (case match_ckpt_step checkpoint_path of
        None \<Rightarrow> Inl (ValueError (Invalid_checkpoint_path checkpoint_path))
      | Some d \<Rightarrow> Inr (int_of_digits d))"

definition get_checkpoint_path :: "string \<Rightarrow> int \<Rightarrow> string" where
  "get_checkpoint_path model_dir step = path_join model_dir (''model.ckpt-'' @ py_str step)"

section \<open>StructureInferer\<close>

text \<open>
  \<^verbatim>\<open>_compute_num_blocks_and_layer\<close>: one plus the greatest number found, \<open>-1\<close> when none
  is; a block count of \<open>-1\<close> becomes \<^verbatim>\<open>None\<close>. A regular expression of the source is given
  by its optional prefix and its token (\<^verbatim>\<open>layer_\<close> or \<^verbatim>\<open>block_\<close>).
\<close>

definition get_max_layer_or_block_num :: "string option \<Rightarrow> string \<Rightarrow> string list \<Rightarrow> int" where
  "get_max_layer_or_block_num pfx tok var_names =
     (let matched_nums = map (re_findall pfx tok) var_names
      in Max (set (map (\<lambda>num. int_of_digits num + 1) (concat matched_nums) @ [- 1])))"

definition compute_num_blocks_and_layer :: "string list \<Rightarrow> int option list \<times> int list" where
  "compute_num_blocks_and_layer var_names =
     (let encoder_decoder_model = list_ex (\<lambda>var_name. startswith var_name ''encoder/'') var_names;
          max_layer_num =
            (if encoder_decoder_model
             then [get_max_layer_or_block_num (Some ''encoder/'') ''layer_'' var_names,
                   get_max_layer_or_block_num (Some ''decoder/'') ''layer_'' var_names]
             else [get_max_layer_or_block_num None ''layer_'' var_names]);
          max_block_num =
            (if encoder_decoder_model
             then [get_max_layer_or_block_num (Some ''encoder/'') ''block_'' var_names,
                   get_max_layer_or_block_num (Some ''decoder/'') ''block_'' var_names]
             else [get_max_layer_or_block_num None ''block_'' var_names])
      in (map (\<lambda>n. if n \<noteq> - 1 then Some n else None) max_block_num, max_layer_num))"

section \<open>VariableMatcher\<close>

text \<open>
  \<^verbatim>\<open>_match_ckpt_to_local_var_name\<close>. The loop runs over the items of the dictionary in
  insertion order and returns at the first entry that passes both tests. The index
  \<^verbatim>\<open>[1]\<close> is taken only when \<^verbatim>\<open>".*"\<close> occurs in the pattern, so the split has two parts
  at least.
\<close>

fun match_entries :: "string \<Rightarrow> string \<Rightarrow> (string \<times> string) list \<Rightarrow> bool" where
  "match_entries ckpt_var_name local_var_name [] = False"
| "match_entries ckpt_var_name local_var_name ((ckpt_regex, var_regex) # rest) =
     (if re_match ckpt_regex ckpt_var_name \<and> re_match var_regex local_var_name
      then (let ckpt_regex' = (if py_in ''.*'' ckpt_regex
                               then py_split ''.*'' ckpt_regex ! 1 else ckpt_regex);
                var_regex' = (if py_in ''.*'' var_regex
                              then py_split ''.*'' var_regex ! 1 else var_regex)
            in if py_replace ckpt_regex' var_regex' ckpt_var_name = local_var_name then True
               else match_entries ckpt_var_name local_var_name rest)
      else match_entries ckpt_var_name local_var_name rest)"

definition match_ckpt_to_local_var_name ::
  "string \<Rightarrow> string \<Rightarrow> (string \<times> string) list \<Rightarrow> bool" where
  "match_ckpt_to_local_var_name ckpt_var_name local_var_name ckpt_var_name_to_local_var_name =
     (if \<not> py_in ''layer'' ckpt_var_name \<or> \<not> py_in ''layer'' local_var_name
      then ckpt_var_name = local_var_name
      else if last (py_split ''/'' ckpt_var_name) \<noteq> last (py_split ''/'' local_var_name)
      then False
      else match_entries ckpt_var_name local_var_name ckpt_var_name_to_local_var_name)"

section \<open>RemappingIndex\<close>

text \<open>
  \<^verbatim>\<open>flexible_ckpt_init_mapping\<close>, with the two name lists that it reads from TensorFlow
  as arguments. It returns the dictionary \<^verbatim>\<open>graph_var_to_ckpt_var\<close>; \<^verbatim>\<open>filter_fn\<close> and
  \<^verbatim>\<open>mapping_fn\<close> are the two closures over it. Unpacking \<^verbatim>\<open>new_layers\<close> into two names and
  indexing a list are written with the errors Python raises.
\<close>

definition graph_var_to_ckpt_var ::
  "string list \<Rightarrow> string list \<Rightarrow> (string \<times> string) list list \<Rightarrow> (string \<times> string) list" where
  "graph_var_to_ckpt_var ckpt_var_names local_var_names mappings =
     fold (\<lambda>ckpt_var_name d.
       fold (\<lambda>local_var_name d.
         fold (\<lambda>mapping d.
           if match_ckpt_to_local_var_name ckpt_var_name local_var_name mapping
           then dict_set d local_var_name ckpt_var_name else d)
         mappings d)
       local_var_names d)
     ckpt_var_names []"

definition filter_fn :: "(string \<times> string) list \<Rightarrow> string \<Rightarrow> bool" where
  "filter_fn d var_name = (var_name \<in> dict_keys d)"

definition mapping_fn :: "(string \<times> string) list \<Rightarrow> string \<Rightarrow> error + string" where
  "mapping_fn d var_name =
     (case map_of d var_name of None \<Rightarrow> Inl (KeyError var_name) | Some c \<Rightarrow> Inr c)"

definition index_err :: "'a list \<Rightarrow> nat \<Rightarrow> error + 'a" where
  "index_err xs i = (if i < length xs then Inr (xs ! i) else Inl IndexError)"

definition unpack2 :: "'a list option \<Rightarrow> error + ('a option \<times> 'a option)" where
  "unpack2 new_layers =
     (case new_layers of
        None \<Rightarrow> Inr (None, None)
      | Some ls \<Rightarrow> if length ls = 2 then Inr (Some (ls ! 0), Some (ls ! 1))
                  else Inl (ValueError Unpack_mismatch))"

definition first_of :: "'a list option \<Rightarrow> error + 'a option" where
  "first_of new_layers =
     (case new_layers of None \<Rightarrow> Inr None
      | Some ls \<Rightarrow> bind_err (index_err ls 0) (\<lambda>l. Inr (Some l)))"

definition build_at ::
  "int option list \<times> int list \<Rightarrow> int option list \<times> int list \<Rightarrow> nat \<Rightarrow> int list option
     \<Rightarrow> string option \<Rightarrow> error + (string \<times> string) list" where
  "build_at ckpt_counts local_counts i new_layers regex_prefix =
     bind_err (index_err (fst ckpt_counts) i) (\<lambda>ckpt_num_blocks.
     bind_err (index_err (snd ckpt_counts) i) (\<lambda>ckpt_num_layers.
     bind_err (index_err (fst local_counts) i) (\<lambda>local_num_blocks.
     bind_err (index_err (snd local_counts) i) (\<lambda>local_num_layers.
       build_ckpt_to_local_var_name_mapping ckpt_num_blocks ckpt_num_layers
         local_num_blocks local_num_layers new_layers regex_prefix))))"

definition flexible_ckpt_init_mapping ::
  "string list \<Rightarrow> string list \<Rightarrow> int list list option \<Rightarrow> error + (string \<times> string) list" where
  "flexible_ckpt_init_mapping ckpt_var_names local_var_names new_layers =
     (let ckpt_counts = compute_num_blocks_and_layer ckpt_var_names;
          local_counts = compute_num_blocks_and_layer local_var_names;
          mappings =
            (if length (fst ckpt_counts) = 2
             then bind_err (unpack2 new_layers) (\<lambda>(new_enc_layers, new_dec_layers).
                  bind_err (build_at ckpt_counts local_counts 0 new_enc_layers (Some ''encoder/''))
                    (\<lambda>enc_mapping.
                  bind_err (build_at ckpt_counts local_counts 1 new_dec_layers (Some ''decoder/''))
                    (\<lambda>dec_mapping. Inr [enc_mapping, dec_mapping])))
             else bind_err (first_of new_layers) (\<lambda>new_lm_layers.
                  bind_err (build_at ckpt_counts local_counts 0 new_lm_layers None)
                    (\<lambda>lm_mapping. Inr [lm_mapping])))
      in bind_err mappings (\<lambda>mappings.
           Inr (graph_var_to_ckpt_var ckpt_var_names local_var_names mappings)))"

section \<open>CheckpointResolver\<close>

text \<open>
  \<^verbatim>\<open>get_checkpoint_iterator\<close>. What it reads from outside is an argument: the names that
  \<^verbatim>\<open>tf.io.gfile.listdir(model_dir)\<close> returns, the answer of \<^verbatim>\<open>tf.train.checkpoint_exists\<close>,
  the path that \<^verbatim>\<open>tf.train.latest_checkpoint\<close> returns, and the paths that
  \<^verbatim>\<open>tf.train.checkpoints_iterator\<close> has yielded so far (a finite prefix of the polled
  sequence). Python does not fix the order in which it iterates over a set; \<open>set_order\<close>
  is that order, for the set built by adding the given integers one by one. A result
  \<open>Inl e\<close> says that consuming the returned iterable raises \<open>e\<close>.

  \<^verbatim>\<open>tf.gfile.Glob\<close> on \<^verbatim>\<open>model_dir/model.ckpt*\<close> reads the whole argument as a pattern. For a
  directory name without the metacharacters \<^verbatim>\<open>*\<close>, \<^verbatim>\<open>?\<close>, \<^verbatim>\<open>[\<close> and the backslash it
  returns the files of the listing whose names start with \<^verbatim>\<open>model.ckpt\<close>, joined to the
  directory; for any other directory name the answer is \<open>glob_pattern\<close> of the pattern,
  a value from outside.

  \<^verbatim>\<open>np.unique\<close> on a list of Python integers that all lie in the signed 64-bit range
  returns them sorted and without repetition, as 64-bit integers, which print as decimal
  numbers. With an element outside that range numpy takes another element type
  (unsigned, floating point or object, by the values and the release), and the elements
  print accordingly (\<^verbatim>\<open>5.0\<close>, \<^verbatim>\<open>9.223372036854776e+18\<close>); \<open>np_unique_wide\<close> is the list
  of the printed elements in that case, a value from outside.
\<close>

record env =
  listdir :: "string list"
  checkpoint_exists :: "string \<Rightarrow> bool"
  latest_checkpoint :: string
  checkpoints_iterator :: "string list"
  set_order :: "int list \<Rightarrow> int list"
  glob_pattern :: "string \<Rightarrow> string list"
  np_unique_wide :: "int list \<Rightarrow> string list"

datatype checkpoint_step = All | Step int | Steps "int list" | NoStep

fun map_err :: "('a \<Rightarrow> error + 'b) \<Rightarrow> 'a list \<Rightarrow> error + 'b list" where
  "map_err f [] = Inr []"
| "map_err f (x # xs) =
     bind_err (f x) (\<lambda>y. bind_err (map_err f xs) (\<lambda>ys. Inr (y # ys)))"

fun filter_err :: "('a \<Rightarrow> error + bool) \<Rightarrow> 'a list \<Rightarrow> error + 'a list" where
  "filter_err f [] = Inr []"
| "filter_err f (x # xs) =
     bind_err (f x) (\<lambda>keep. bind_err (filter_err f xs) (\<lambda>ys. Inr (if keep then x # ys else ys)))"

definition found_steps :: "string list \<Rightarrow> int list" where
  "found_steps files =
     concat (map (\<lambda>f. case get_step_from_checkpoint_path f of Inl e \<Rightarrow> [] | Inr s \<Rightarrow> [s]) files)"

definition closer :: "int \<Rightarrow> int \<Rightarrow> int option \<Rightarrow> int option" where
  "closer target_checkpoint c closest =
     (case closest of
        None \<Rightarrow> Some c
      | Some k \<Rightarrow> if \<bar>target_checkpoint - c\<bar> < \<bar>target_checkpoint - k\<bar> then Some c else Some k)"

definition get_closest_checkpoint :: "env \<Rightarrow> string \<Rightarrow> int \<Rightarrow> error + int" where
  "get_closest_checkpoint e model_dir target_checkpoint =
     (let checkpoints = set_order e (found_steps (listdir e))
      in if checkpoints = [] then Inl (ValueError (No_checkpoint_files_found model_dir))
         else (case fold (closer target_checkpoint) checkpoints None of
                 Some closest \<Rightarrow> Inr closest
               | None \<Rightarrow> Inl (ValueError (No_checkpoint_files_found model_dir))))"

definition skip_filter :: "int \<Rightarrow> string \<Rightarrow> error + bool" where
  "skip_filter skip_until p =
     bind_err (get_step_from_checkpoint_path p) (\<lambda>step. Inr (step > skip_until))"

definition has_glob_meta :: "string \<Rightarrow> bool" where
  "has_glob_meta s =
     list_ex (\<lambda>c. c \<in> set [CHR ''*'', CHR ''?'', CHR ''['', CHR 0x5C]) s"

definition glob_ckpt :: "env \<Rightarrow> string \<Rightarrow> string list" where
  "glob_ckpt e model_dir =
     (if has_glob_meta model_dir then glob_pattern e (path_join model_dir ''model.ckpt*'')
      else map (path_join model_dir)
             (filter (\<lambda>f. startswith f ''model.ckpt'') (listdir e)))"

definition in_int64 :: "int \<Rightarrow> bool" where
  "in_int64 n = (- (2 ^ 63) \<le> n \<and> n < 2 ^ 63)"

definition np_unique_str :: "env \<Rightarrow> int list \<Rightarrow> string list" where
  "np_unique_str e xs =
     (if list_all in_int64 xs then map py_str (sort (remdups xs)) else np_unique_wide e xs)"

definition checkpoint_path_named :: "string \<Rightarrow> string \<Rightarrow> string" where
  "checkpoint_path_named model_dir step_str = path_join model_dir (''model.ckpt-'' @ step_str)"

fun generate_checkpoints :: "int \<Rightarrow> int \<Rightarrow> string list \<Rightarrow> error + string list" where
  "generate_checkpoints skip_until stop_after [] = Inr []"
| "generate_checkpoints skip_until stop_after (p # ps) =
     bind_err (skip_filter skip_until p) (\<lambda>keep.
       if \<not> keep then generate_checkpoints skip_until stop_after ps
       else bind_err (get_step_from_checkpoint_path p) (\<lambda>step.
         bind_err (if step \<ge> stop_after then Inr []
                   else generate_checkpoints skip_until stop_after ps) (\<lambda>later.
           Inr (if step \<le> stop_after then p # later else later))))"

definition exact_checkpoints :: "env \<Rightarrow> string \<Rightarrow> int list \<Rightarrow> error + string list" where
  "exact_checkpoints e model_dir checkpoint_step =
     (let checkpoints = filter (checkpoint_exists e)
                          (map (get_checkpoint_path model_dir) checkpoint_step)
      in if checkpoints = [] then Inl (ValueError None_were_found) else Inr checkpoints)"

definition get_checkpoint_iterator ::
  "env \<Rightarrow> checkpoint_step \<Rightarrow> string \<Rightarrow> int \<Rightarrow> int option \<Rightarrow> bool \<Rightarrow> error + string list" where
  "get_checkpoint_iterator e checkpoint_step model_dir skip_until stop_after find_closest =
     (case checkpoint_step of
        All \<Rightarrow>
          bind_err (map_err get_step_from_checkpoint_path (glob_ckpt e model_dir)) (\<lambda>ckpt_steps.
            filter_err (skip_filter skip_until)
              (map (get_checkpoint_path model_dir) (sort (remdups ckpt_steps))))
      | NoStep \<Rightarrow>
          (case stop_after of
             Some stop \<Rightarrow> generate_checkpoints skip_until stop (checkpoints_iterator e)
           | None \<Rightarrow> filter_err (skip_filter skip_until) (checkpoints_iterator e))
      | Step s \<Rightarrow>
          if s = - 1 then Inr [latest_checkpoint e]
          else if find_closest
          then bind_err (get_closest_checkpoint e model_dir s) (\<lambda>closest.
                 Inr [get_checkpoint_path model_dir closest])
          else exact_checkpoints e model_dir [s]
      | Steps ss \<Rightarrow>
          if find_closest
          then bind_err (map_err (get_closest_checkpoint e model_dir) ss) (\<lambda>closests.
                 Inr (map (checkpoint_path_named model_dir) (np_unique_str e closests)))
          else exact_checkpoints e model_dir ss)"

section \<open>Wording of the specification\<close>

text \<open>
  Rule 1 of the specification's VariableMatcher speaks of a name that contains the
  literal \<^verbatim>\<open>layer\<close> as a path segment token. Read on the slash-separated path, that is a
  segment that begins with the literal (\<^verbatim>\<open>layer\<close>, \<^verbatim>\<open>layer_003\<close>). The source tests
  \<^verbatim>\<open>"layer" in name\<close>, a substring test, which is \<open>py_in\<close> above.
\<close>

definition layer_segment_token :: "string \<Rightarrow> bool" where
  "layer_segment_token name =
     list_ex (\<lambda>segment. startswith segment ''layer'') (py_split ''/'' name)"

section \<open>Decimal numbers\<close>

lemma digit_char_val: "n < 10 \<Longrightarrow> digit_val (digit_char n) = n"
proof -
  assume "n < 10"
  then have "n = 0 \<or> n = 1 \<or> n = 2 \<or> n = 3 \<or> n = 4 \<or> n = 5 \<or> n = 6 \<or> n = 7
    \<or> n = 8 \<or> n = 9" by arith
  then show ?thesis
    by (elim disjE) (simp_all add: digit_val_def digit_char_def)
qed

lemma digit_char_is_digit: "n < 10 \<Longrightarrow> is_digit (digit_char n)"
proof -
  assume "n < 10"
  then have "n = 0 \<or> n = 1 \<or> n = 2 \<or> n = 3 \<or> n = 4 \<or> n = 5 \<or> n = 6 \<or> n = 7
    \<or> n = 8 \<or> n = 9" by arith
  then show ?thesis
    by (elim disjE) (simp_all add: is_digit_def digit_char_def)
qed

lemma str_nat_value: "foldl (\<lambda>a c. 10 * a + digit_val c) 0 (str_nat n) = n"
proof (induction n rule: str_nat.induct)
  case (1 n)
  show ?case
  proof (cases "n < 10")
    case True
    then show ?thesis by (subst str_nat.simps) (simp add: digit_char_val)
  next
    case False
    with "1.IH" have "foldl (\<lambda>a c. 10 * a + digit_val c) 0 (str_nat (n div 10)) = n div 10"
      by simp
    with False show ?thesis by (subst str_nat.simps) (simp add: digit_char_val)
  qed
qed

lemma str_nat_digits: "list_all is_digit (str_nat n)"
proof (induction n rule: str_nat.induct)
  case (1 n)
  show ?case
  proof (cases "n < 10")
    case True
    then show ?thesis by (subst str_nat.simps) (simp add: digit_char_is_digit)
  next
    case False
    with "1.IH" have "list_all is_digit (str_nat (n div 10))" by simp
    with False show ?thesis by (subst str_nat.simps) (simp add: digit_char_is_digit)
  qed
qed

lemma str_nat_nonempty: "str_nat n \<noteq> []"
  by (subst str_nat.simps) simp

lemma foldl_digits_zeros:
  "foldl (\<lambda>a c. 10 * a + digit_val c) 0 (replicate k (CHR ''0'')) = 0"
  by (induction k) (simp_all add: digit_val_def)

lemma int_of_digits_str_nat: "int_of_digits (str_nat n) = int n"
  by (simp add: int_of_digits_def str_nat_value)

lemma int_of_digits_zfill: "int_of_digits (zfill w (str_nat n)) = int n"
  by (simp add: int_of_digits_def zfill_def foldl_digits_zeros str_nat_value)

lemma format_03d_value: "0 \<le> i \<Longrightarrow> int_of_digits (format_03d i) = i"
  by (simp add: format_03d_def int_of_digits_zfill)

lemma zeros_digits: "list_all is_digit (replicate k (CHR ''0''))"
  by (induction k) (simp_all add: is_digit_def)

lemma format_03d_digits: "0 \<le> i \<Longrightarrow> list_all is_digit (format_03d i)"
  by (simp add: format_03d_def zfill_def str_nat_digits zeros_digits)

lemma format_03d_inj: "0 \<le> i \<Longrightarrow> 0 \<le> j \<Longrightarrow> format_03d i = format_03d j \<Longrightarrow> i = j"
  by (metis format_03d_value)

lemma digits_then_other:
  assumes "list_all P xs" "list_all P xs'" "\<not> P a" "\<not> P a'" "xs @ a # ys = xs' @ a' # ys'"
  shows "xs = xs' \<and> ys = ys'"
proof -
  have "takeWhile P (xs @ a # ys) = xs" "takeWhile P (xs' @ a' # ys') = xs'"
    using assms(1-4) by (simp_all add: takeWhile_append2 list_all_iff)
  with assms(5) have "xs = xs'" by simp
  with assms(5) show ?thesis by simp
qed

section \<open>The correspondence is positional\<close>

lemma build_regex_inj:
  assumes "0 \<le> l" "0 \<le> l'" "0 \<le> b" "0 \<le> b'"
    and "build_regex p l b nb = build_regex p l' b' nb"
  shows "l = l' \<and> (nb \<noteq> None \<longrightarrow> b = b')"
proof (cases nb)
  case None
  with assms(5) have "format_03d l = format_03d l'"
    by (cases p) (simp_all add: build_regex_def)
  with assms(1,2) show ?thesis using None by (simp add: format_03d_inj)
next
  case (Some k)
  with assms(5) have e: "format_03d b @ CHR ''/'' # (''layer_'' @ format_03d l)
      = format_03d b' @ CHR ''/'' # (''layer_'' @ format_03d l')"
    by (cases p) (simp_all add: build_regex_def)
  have nd: "\<not> is_digit (CHR ''/'')" by (simp add: is_digit_def)
  have "format_03d b = format_03d b' \<and> ''layer_'' @ format_03d l = ''layer_'' @ format_03d l'"
    by (rule digits_then_other
        [OF format_03d_digits [OF assms(3)] format_03d_digits [OF assms(4)] nd nd e])
  with assms(1-4) show ?thesis by (simp add: format_03d_inj)
qed

lemma concat_map_product:
  "concat (map (\<lambda>b. map (g b) ls) bs) = map (\<lambda>(b, l). g b l) (List.product bs ls)"
  by (induction bs) (simp_all add: comp_def)

lemma set_py_range: "set (py_range n) = {0..n - 1}"
  by (simp add: py_range_def)

lemma distinct_py_range: "distinct (py_range n)"
  by (simp add: py_range_def)

lemma length_py_range: "length (py_range n) = nat n"
  by (simp add: py_range_def)

lemma or_1_None_range: "py_range (or_1 None) = [0]"
  by (simp add: py_range_def or_1_def upto.simps)

lemma distinct_regexes:
  assumes "distinct ls" "\<forall>l \<in> set ls. 0 \<le> l"
  shows "distinct (concat (map (\<lambda>b. map (\<lambda>l. build_regex p l b nb) ls) (py_range (or_1 nb))))"
proof -
  let ?bs = "py_range (or_1 nb)"
  have b0: "\<forall>b \<in> set ?bs. 0 \<le> b" by (simp add: set_py_range)
  have b1: "nb = None \<Longrightarrow> \<forall>b \<in> set ?bs. b = 0" by (simp add: or_1_None_range)
  have "inj_on (\<lambda>(b, l). build_regex p l b nb) (set (List.product ?bs ls))"
  proof (rule inj_onI, clarify)
    fix b l b' l'
    assume m: "(b, l) \<in> set (List.product ?bs ls)" "(b', l') \<in> set (List.product ?bs ls)"
      and e: "build_regex p l b nb = build_regex p l' b' nb"
    from m have in1: "b \<in> set ?bs" "b' \<in> set ?bs" "l \<in> set ls" "l' \<in> set ls" by auto
    with b0 assms(2) have "0 \<le> l" "0 \<le> l'" "0 \<le> b" "0 \<le> b'" by auto
    from build_regex_inj [OF this e] have r: "l = l'" "nb \<noteq> None \<longrightarrow> b = b'" by auto
    show "b = b' \<and> l = l'"
    proof (cases nb)
      case None
      with b1 in1 have "b = 0" "b' = 0" by auto
      with r show ?thesis by simp
    next
      case (Some k)
      with r show ?thesis by simp
    qed
  qed
  moreover have "distinct (List.product ?bs ls)"
    using assms(1) by (simp add: distinct_product distinct_py_range)
  ultimately show ?thesis
    by (simp add: concat_map_product distinct_map)
qed

lemma distinct_all_ckpt_name_regexes: "distinct (all_ckpt_name_regexes p nb nl)"
  unfolding all_ckpt_name_regexes_def
  by (rule distinct_regexes) (simp_all add: distinct_py_range set_py_range)

lemma dict_set_fresh: "k \<notin> fst ` set d \<Longrightarrow> dict_set d k v = d @ [(k, v)]"
  by (induction d) auto

lemma fold_dict_set_zip:
  assumes "distinct (map fst kvs)" "fst ` set d \<inter> fst ` set kvs = {}"
  shows "fold (\<lambda>(k, v) d. dict_set d k v) kvs d = d @ kvs"
  using assms
proof (induction kvs arbitrary: d)
  case Nil
  then show ?case by simp
next
  case (Cons kv kvs)
  obtain k v where kv: "kv = (k, v)" by (cases kv)
  from Cons.prems kv have f: "k \<notin> fst ` set d" by auto
  have "fold (\<lambda>(k, v) d. dict_set d k v) kvs (d @ [(k, v)]) = (d @ [(k, v)]) @ kvs"
    using Cons.prems kv by (intro Cons.IH) (auto simp: image_Un)
  with f kv show ?case by (simp add: dict_set_fresh)
qed

lemma length_concat_const:
  "length (concat (map (\<lambda>b. map (g b) ls) bs)) = length bs * length ls"
  by (induction bs) simp_all

lemma length_all_ckpt_name_regexes:
  "length (all_ckpt_name_regexes p nb nl) = nat (or_1 nb) * nat nl"
  by (simp add: all_ckpt_name_regexes_def length_concat_const length_py_range)

lemma length_all_local_name_regexes:
  "length (all_local_name_regexes p nb nl new) =
     nat (or_1 nb) * length (filter (\<lambda>l. \<not> is_new_layer new l) (py_range nl))"
  by (simp add: all_local_name_regexes_def length_concat_const length_py_range)

lemma build_mapping_eq:
  "build_ckpt_to_local_var_name_mapping cb cl lb ll new p =
     (if length (all_ckpt_name_regexes p cb cl) \<noteq> length (all_local_name_regexes p lb ll new)
      then Inl (ValueError Invalid_checkpoint_to_load)
      else Inr (zip (all_ckpt_name_regexes p cb cl) (all_local_name_regexes p lb ll new)))"
proof -
  let ?cs = "all_ckpt_name_regexes p cb cl" and ?ls = "all_local_name_regexes p lb ll new"
  have "fold (\<lambda>(k, v) d. dict_set d k v) (zip ?cs ?ls) [] = [] @ zip ?cs ?ls"
    if "length ?cs = length ?ls"
    using that by (intro fold_dict_set_zip) (simp_all add: distinct_all_ckpt_name_regexes)
  then show ?thesis
    by (simp add: build_ckpt_to_local_var_name_mapping_def Let_def)
qed

text \<open>
  Claim C1. The source side has \<open>(ckpt_num_blocks or 1) * ckpt_num_layers\<close> slots, the
  target side \<open>(local_num_blocks or 1)\<close> times the number of layers below
  \<open>local_num_layers\<close> that are not new. The builder raises the \<^verbatim>\<open>ValueError\<close> of the
  structural mismatch exactly when the two numbers differ. Otherwise it returns the
  dictionary whose items, in order, pair the N-th source pattern with the N-th target
  pattern. Four blocks of three layers on both sides and no new layer give twelve items.
\<close>

theorem correspondence_builder_positional:
  "build_ckpt_to_local_var_name_mapping cb cl lb ll new p =
     (if nat (or_1 cb) * nat cl \<noteq>
         nat (or_1 lb) * length (filter (\<lambda>l. \<not> is_new_layer new l) (py_range ll))
      then Inl (ValueError Invalid_checkpoint_to_load)
      else Inr (zip (all_ckpt_name_regexes p cb cl) (all_local_name_regexes p lb ll new)))
   \<and> length (all_ckpt_name_regexes p cb cl) = nat (or_1 cb) * nat cl
   \<and> length (all_local_name_regexes p lb ll new) =
       nat (or_1 lb) * length (filter (\<lambda>l. \<not> is_new_layer new l) (py_range ll))
   \<and> (\<exists>m. build_ckpt_to_local_var_name_mapping (Some 4) 3 (Some 4) 3 None p = Inr m
          \<and> length m = 12)"
proof -
  have "length (filter (\<lambda>l. \<not> is_new_layer None l) (py_range 3)) = 3"
    by (simp add: is_new_layer_def length_py_range)
  then have "build_ckpt_to_local_var_name_mapping (Some 4) 3 (Some 4) 3 None p =
      Inr (zip (all_ckpt_name_regexes p (Some 4) 3) (all_local_name_regexes p (Some 4) 3 None))
    \<and> length (zip (all_ckpt_name_regexes p (Some 4) 3)
        (all_local_name_regexes p (Some 4) 3 None)) = 12"
    by (simp add: build_mapping_eq length_all_ckpt_name_regexes
        length_all_local_name_regexes or_1_def)
  then show ?thesis
    by (simp add: build_mapping_eq length_all_ckpt_name_regexes length_all_local_name_regexes)
qed

section \<open>Names outside the layer convention\<close>

text \<open>
  Claim C3 says that a pair of names without a layer token in any path segment matches
  exactly when the two names are identical, whatever the correspondence is; the comment
  on the guard in the source says the same of a name outside the block/layer convention.
  The guard tests for the substring \<^verbatim>\<open>layer\<close> instead. The names \<^verbatim>\<open>players/score\<close> and
  \<^verbatim>\<open>encoder/final_layer_norm/scale\<close> have no segment that is a layer token, yet they
  contain the substring; the matcher goes on to the correspondence entries, no entry
  fits, and the identical pair does not match, with no entry as with the entry of an
  encoder layer.
\<close>

theorem matcher_misses_identity_outside_convention:
  "\<not> layer_segment_token ''players/score''
   \<and> \<not> match_ckpt_to_local_var_name ''players/score'' ''players/score'' []
   \<and> \<not> layer_segment_token ''encoder/final_layer_norm/scale''
   \<and> \<not> match_ckpt_to_local_var_name ''encoder/final_layer_norm/scale''
         ''encoder/final_layer_norm/scale''
         [(''encoder/.*layer_000'', ''encoder/.*layer_000'')]"
  by code_simp

text \<open>Claim C3, the first of these pairs on its own.\<close>

theorem matcher_misses_identity_witness:
  "\<not> match_ckpt_to_local_var_name ''players/score'' ''players/score'' []"
  using matcher_misses_identity_outside_convention by blast

text \<open>
  What the guard does cover: when neither name contains the substring \<^verbatim>\<open>layer\<close>
  anywhere, the pair matches exactly when the two names are identical, whatever the
  correspondence entries are; \<^verbatim>\<open>global_step\<close> on both sides always matches.
\<close>

lemma matcher_identity_without_layer_substring:
  "(\<not> py_in ''layer'' ckpt_var_name \<and> \<not> py_in ''layer'' local_var_name \<longrightarrow>
      match_ckpt_to_local_var_name ckpt_var_name local_var_name m
        = (ckpt_var_name = local_var_name))
   \<and> match_ckpt_to_local_var_name ''global_step'' ''global_step'' m"
proof -
  have "\<not> py_in ''layer'' ''global_step''" by code_simp
  then show ?thesis by (simp add: match_ckpt_to_local_var_name_def)
qed

section \<open>Parsing the step of a formatted identifier\<close>

lemma ckpt_step_at_head: "ckpt_step_at s = Some d \<Longrightarrow> \<exists>cs. s = CHR ''m'' # cs"
  by (cases s) (auto simp: ckpt_step_at_def startswith_def split: if_splits)

lemma match_ckpt_step_no_m: "CHR ''m'' \<notin> set s \<Longrightarrow> match_ckpt_step s = None"
proof (induction s)
  case Nil
  then show ?case by simp
next
  case (Cons c cs)
  then have "match_ckpt_step cs = None" by simp
  moreover have "ckpt_step_at (c # cs) = None"
    using Cons.prems ckpt_step_at_head [of "c # cs"] by (cases "ckpt_step_at (c # cs)") auto
  ultimately show ?case by auto
qed

lemma is_digit_not_m: "is_digit c \<Longrightarrow> c \<noteq> CHR ''m''"
  by (auto simp: is_digit_def)

lemma match_ckpt_step_here:
  "match_ckpt_step cs = None \<Longrightarrow> match_ckpt_step (c # cs) = ckpt_step_at (c # cs)"
  by simp

lemma match_ckpt_step_name:
  assumes "ds \<noteq> []" "list_all is_digit ds"
  shows "match_ckpt_step (''model.ckpt-'' @ ds) = Some ds"
proof -
  have "CHR ''m'' \<notin> set (''odel.ckpt-'' @ ds)"
    using assms(2) is_digit_not_m by (auto simp: list_all_iff)
  then have "match_ckpt_step (''odel.ckpt-'' @ ds) = None" by (rule match_ckpt_step_no_m)
  then have "match_ckpt_step (CHR ''m'' # (''odel.ckpt-'' @ ds))
      = ckpt_step_at (CHR ''m'' # (''odel.ckpt-'' @ ds))"
    by (rule match_ckpt_step_here)
  moreover have tw: "takeWhile is_digit ds = ds" using assms(2) by (simp add: list_all_iff)
  have "ckpt_step_at (CHR ''m'' # (''odel.ckpt-'' @ ds)) = Some ds"
    using assms(1) by (simp add: ckpt_step_at_def startswith_def tw)
  ultimately show ?thesis by simp
qed

lemma match_ckpt_step_prepend:
  "newline \<notin> set pre \<Longrightarrow> match_ckpt_step s = Some d \<Longrightarrow> match_ckpt_step (pre @ s) = Some d"
  by (induction pre) auto

lemma get_checkpoint_path_shape:
  "\<exists>pre. get_checkpoint_path model_dir step = pre @ ''model.ckpt-'' @ py_str step
     \<and> set pre \<subseteq> insert (CHR ''/'') (set model_dir)"
  by (auto simp: get_checkpoint_path_def path_join_def startswith_def)

text \<open>
  For a directory without a line break the step of a formatted identifier is read back:
  the last \<^verbatim>\<open>model.ckpt-\<close> of the path is the formatted one, and only digits follow it.
\<close>

lemma step_round_trip:
  assumes "newline \<notin> set model_dir" "0 \<le> step"
  shows "get_step_from_checkpoint_path (get_checkpoint_path model_dir step) = Inr step"
proof -
  obtain pre where p: "get_checkpoint_path model_dir step = pre @ ''model.ckpt-'' @ py_str step"
    and s: "set pre \<subseteq> insert (CHR ''/'') (set model_dir)"
    using get_checkpoint_path_shape by blast
  from s assms(1) have n: "newline \<notin> set pre" by (auto simp: newline_def)
  from assms(2) have d: "py_str step = str_nat (nat step)" by (simp add: py_str_def)
  have "match_ckpt_step (''model.ckpt-'' @ str_nat (nat step)) = Some (str_nat (nat step))"
    by (rule match_ckpt_step_name) (simp_all add: str_nat_nonempty str_nat_digits)
  with n have "match_ckpt_step (pre @ ''model.ckpt-'' @ str_nat (nat step))
      = Some (str_nat (nat step))"
    by (rule match_ckpt_step_prepend)
  with p d assms(2) show ?thesis
    by (simp add: get_step_from_checkpoint_path_def int_of_digits_str_nat)
qed

text \<open>
  Claim C8 asks for the round trip in every base directory. In a directory whose name
  holds a line break the wildcard of the pattern cannot reach the file name: for the
  directory \<^verbatim>\<open>a\nb\<close> and step 5 the formatted identifier is \<^verbatim>\<open>a\nb/model.ckpt-5\<close>, and
  parsing it raises the \<^verbatim>\<open>ValueError\<close> of an invalid checkpoint path.
\<close>

theorem step_round_trip_line_break:
  "get_checkpoint_path (''a'' @ [newline] @ ''b'') 5 = ''a'' @ [newline] @ ''b/model.ckpt-5''
   \<and> get_step_from_checkpoint_path (get_checkpoint_path (''a'' @ [newline] @ ''b'') 5)
     = Inl (ValueError (Invalid_checkpoint_path (''a'' @ [newline] @ ''b/model.ckpt-5'')))"
  by code_simp

section \<open>File names without a step\<close>

text \<open>
  Claim C9 says that both enumerations skip a file name without a parseable step. The
  scan of the closest mode does; the selector \<^verbatim>\<open>"all"\<close> does not. With the files
  \<^verbatim>\<open>checkpoint\<close>, \<^verbatim>\<open>model.ckpt-10.index\<close> and \<^verbatim>\<open>model.ckpt.bak\<close> in the directory, the
  selector \<^verbatim>\<open>"all"\<close> raises on \<^verbatim>\<open>model.ckpt.bak\<close>, which the glob \<^verbatim>\<open>model.ckpt*\<close> lets
  through; the closest mode on the same directory skips it and answers with step 10.
  Parsing the name directly raises, as the claim says.
\<close>

theorem all_selector_aborts_on_unparseable:
  "get_checkpoint_iterator
     \<lparr>listdir = [''checkpoint'', ''model.ckpt-10.index'', ''model.ckpt.bak''],
      checkpoint_exists = (\<lambda>p. False), latest_checkpoint = ''d/model.ckpt-10'',
      checkpoints_iterator = [], set_order = remdups,
      glob_pattern = (\<lambda>p. []), np_unique_wide = (\<lambda>xs. [])\<rparr>
     All ''d'' 0 None True
   = Inl (ValueError (Invalid_checkpoint_path ''d/model.ckpt.bak''))
  \<and> get_checkpoint_iterator
     \<lparr>listdir = [''checkpoint'', ''model.ckpt-10.index'', ''model.ckpt.bak''],
      checkpoint_exists = (\<lambda>p. False), latest_checkpoint = ''d/model.ckpt-10'',
      checkpoints_iterator = [], set_order = remdups,
      glob_pattern = (\<lambda>p. []), np_unique_wide = (\<lambda>xs. [])\<rparr>
     (Step 3) ''d'' 0 None True
   = Inr [''d/model.ckpt-10'']
  \<and> get_step_from_checkpoint_path ''model.ckpt.bak''
   = Inl (ValueError (Invalid_checkpoint_path ''model.ckpt.bak''))"
  by code_simp

section \<open>Continuous mode with a ceiling\<close>

text \<open>
  Claim C5, as stated, fails. With floor 0 and ceiling 10, and the polled identifiers
  of steps 5, 15 and 20, the first identifier at or above the ceiling is that of step
  15. The generator stops there without yielding it: only step 5 is yielded.
\<close>

theorem continuous_ceiling_counterexample:
  "get_checkpoint_iterator
     \<lparr>listdir = [], checkpoint_exists = (\<lambda>p. False), latest_checkpoint = [],
      checkpoints_iterator = [''d/model.ckpt-5'', ''d/model.ckpt-15'', ''d/model.ckpt-20''],
      set_order = remdups,
      glob_pattern = (\<lambda>p. []), np_unique_wide = (\<lambda>xs. [])\<rparr>
     NoStep ''d'' 0 (Some 10) True
   = Inr [''d/model.ckpt-5'']
  \<and> get_step_from_checkpoint_path ''d/model.ckpt-15'' = Inr 15"
  by code_simp

lemma generate_checkpoints_eq:
  assumes "\<forall>p \<in> set ps. get_step_from_checkpoint_path p = Inr (step p)"
  shows "generate_checkpoints skip_until stop ps =
     Inr (takeWhile (\<lambda>p. step p < stop) (filter (\<lambda>p. step p > skip_until) ps) @
          (case dropWhile (\<lambda>p. step p < stop) (filter (\<lambda>p. step p > skip_until) ps) of
             [] \<Rightarrow> [] | q # qs \<Rightarrow> if step q = stop then [q] else []))"
  using assms
proof (induction ps)
  case Nil
  then show ?case by simp
next
  case (Cons p ps)
  then have g: "get_step_from_checkpoint_path p = Inr (step p)" by simp
  from Cons have ih: "generate_checkpoints skip_until stop ps =
     Inr (takeWhile (\<lambda>p. step p < stop) (filter (\<lambda>p. step p > skip_until) ps) @
          (case dropWhile (\<lambda>p. step p < stop) (filter (\<lambda>p. step p > skip_until) ps) of
             [] \<Rightarrow> [] | q # qs \<Rightarrow> if step q = stop then [q] else []))" by simp
  show ?case
  proof (cases "step p > skip_until")
    case False
    with g ih show ?thesis by (simp add: skip_filter_def bind_err_def)
  next
    case True
    show ?thesis
    proof (cases "step p < stop")
      case True
      with \<open>step p > skip_until\<close> g ih show ?thesis by (simp add: skip_filter_def bind_err_def)
    next
      case False
      with \<open>step p > skip_until\<close> g show ?thesis by (simp add: skip_filter_def bind_err_def)
    qed
  qed
qed

text \<open>
  Claim C5, amended. Let every polled identifier carry a step. In continuous mode with a
  ceiling the resolver yields, in polled order, the identifiers whose step exceeds the
  floor and lies below the ceiling, up to the first identifier above the floor whose step
  is at or above the ceiling. It stops there, and it yields that identifier only when
  its step equals the ceiling.
\<close>

theorem continuous_ceiling_yields:
  assumes "\<forall>p \<in> set (checkpoints_iterator e). get_step_from_checkpoint_path p = Inr (step p)"
  shows "get_checkpoint_iterator e NoStep model_dir skip_until (Some stop) find_closest =
     Inr (takeWhile (\<lambda>p. step p < stop)
            (filter (\<lambda>p. step p > skip_until) (checkpoints_iterator e)) @
          (case dropWhile (\<lambda>p. step p < stop)
                  (filter (\<lambda>p. step p > skip_until) (checkpoints_iterator e)) of
             [] \<Rightarrow> [] | q # qs \<Rightarrow> if step q = stop then [q] else []))"
  using generate_checkpoints_eq [OF assms] by (simp add: get_checkpoint_iterator_def)

text \<open>
  Claim C5, an instance: floor 0, ceiling 10, polled steps 5, 10 and 20. Steps 5 and 10
  are yielded, and the sequence ends.
\<close>

theorem continuous_ceiling_witness:
  "get_step_from_checkpoint_path ''d/model.ckpt-5'' = Inr 5
   \<and> get_step_from_checkpoint_path ''d/model.ckpt-10'' = Inr 10
   \<and> get_step_from_checkpoint_path ''d/model.ckpt-20'' = Inr 20
   \<and> get_checkpoint_iterator
       \<lparr>listdir = [], checkpoint_exists = (\<lambda>p. False), latest_checkpoint = [],
        checkpoints_iterator = [''d/model.ckpt-5'', ''d/model.ckpt-10'', ''d/model.ckpt-20''],
        set_order = remdups,
      glob_pattern = (\<lambda>p. []), np_unique_wide = (\<lambda>xs. [])\<rparr>
       NoStep ''d'' 0 (Some 10) True
     = Inr [''d/model.ckpt-5'', ''d/model.ckpt-10'']"
proof -
  let ?e = "\<lparr>listdir = [], checkpoint_exists = (\<lambda>p. False), latest_checkpoint = [],
        checkpoints_iterator = [''d/model.ckpt-5'', ''d/model.ckpt-10'', ''d/model.ckpt-20''],
        set_order = remdups,
      glob_pattern = (\<lambda>p. []), np_unique_wide = (\<lambda>xs. [])\<rparr>"
  let ?step = "\<lambda>p. if p = ''d/model.ckpt-5'' then 5
                   else if p = ''d/model.ckpt-10'' then 10 else (20::int)"
  have a: "get_step_from_checkpoint_path ''d/model.ckpt-5'' = Inr 5" by code_simp
  have b: "get_step_from_checkpoint_path ''d/model.ckpt-10'' = Inr 10" by code_simp
  have c: "get_step_from_checkpoint_path ''d/model.ckpt-20'' = Inr 20" by code_simp
  have h: "\<forall>p \<in> set (checkpoints_iterator ?e). get_step_from_checkpoint_path p = Inr (?step p)"
    using a b c by simp
  from continuous_ceiling_yields [OF h, of "''d''" 0 10 True] a b c show ?thesis by simp
qed

section \<open>Closest mode\<close>

lemma fold_closer_Some:
  "\<exists>k. fold (closer t) xs (Some a) = Some k \<and> k \<in> insert a (set xs)
       \<and> (\<forall>c \<in> insert a (set xs). \<bar>t - k\<bar> \<le> \<bar>t - c\<bar>)"
proof (induction xs arbitrary: a)
  case Nil
  then show ?case by simp
next
  case (Cons x xs)
  let ?a = "if \<bar>t - x\<bar> < \<bar>t - a\<bar> then x else a"
  have c: "closer t x (Some a) = Some ?a" by (simp add: closer_def)
  from Cons.IH [of ?a] obtain k where k: "fold (closer t) xs (Some ?a) = Some k"
    "k \<in> insert ?a (set xs)" "\<forall>c \<in> insert ?a (set xs). \<bar>t - k\<bar> \<le> \<bar>t - c\<bar>" by blast
  from k(3) have m: "\<bar>t - k\<bar> \<le> \<bar>t - ?a\<bar>" by blast
  have "fold (closer t) (x # xs) (Some a) = Some k" using c k(1) by simp
  moreover have "k \<in> insert a (set (x # xs))" using k(2) by (auto split: if_splits)
  moreover have "\<forall>c \<in> insert a (set (x # xs)). \<bar>t - k\<bar> \<le> \<bar>t - c\<bar>"
    using k(3) m by (auto split: if_splits)
  ultimately show ?case by blast
qed

lemma fold_closer_None:
  assumes "xs \<noteq> []"
  shows "\<exists>k. fold (closer t) xs None = Some k \<and> k \<in> set xs
       \<and> (\<forall>c \<in> set xs. \<bar>t - k\<bar> \<le> \<bar>t - c\<bar>)"
proof -
  from assms obtain x ys where xs: "xs = x # ys" by (cases xs) auto
  have "fold (closer t) xs None = fold (closer t) ys (Some x)"
    by (simp add: xs closer_def)
  with fold_closer_Some [of t ys x] show ?thesis by (simp add: xs)
qed

lemma get_closest_checkpoint_min:
  assumes "\<forall>xs. set (set_order e xs) = set xs"
  shows "(found_steps (listdir e) = [] \<longrightarrow>
            get_closest_checkpoint e model_dir t
              = Inl (ValueError (No_checkpoint_files_found model_dir)))
       \<and> (found_steps (listdir e) \<noteq> [] \<longrightarrow>
            (\<exists>c \<in> set (found_steps (listdir e)).
               get_closest_checkpoint e model_dir t = Inr c
               \<and> (\<forall>c' \<in> set (found_steps (listdir e)). \<bar>t - c\<bar> \<le> \<bar>t - c'\<bar>)))"
proof (cases "found_steps (listdir e) = []")
  case True
  with assms have "set (set_order e (found_steps (listdir e))) = {}" by simp
  then have "set_order e (found_steps (listdir e)) = []" by simp
  with True show ?thesis by (simp add: get_closest_checkpoint_def)
next
  case False
  let ?cs = "set_order e (found_steps (listdir e))"
  from assms have s: "set ?cs = set (found_steps (listdir e))" by simp
  with False have ne: "?cs \<noteq> []" by auto
  from fold_closer_None [OF ne, of t] obtain k where
    k: "fold (closer t) ?cs None = Some k" "k \<in> set ?cs" "\<forall>c \<in> set ?cs. \<bar>t - k\<bar> \<le> \<bar>t - c\<bar>"
    by blast
  from ne k(1) have "get_closest_checkpoint e model_dir t = Inr k"
    by (simp add: get_closest_checkpoint_def)
  with k(2,3) s False show ?thesis by auto
qed

text \<open>
  Claim C7. Let the order in which Python iterates over the set of found steps be any
  order of its elements, and let the requested step \<open>s\<close> not be \<open>-1\<close> (which selects the
  latest checkpoint). In closest mode, when the directory listing carries no step the
  resolver raises; otherwise it returns the one identifier formatted from a found step
  \<open>c\<close> whose distance \<open>\<bar>s - c\<bar>\<close> is least among all found steps. With found steps 10, 20
  and 35 and requested step 28 that is the identifier of step 35.
\<close>

theorem closest_single_step_minimizes:
  assumes "\<forall>xs. set (set_order e xs) = set xs" and "s \<noteq> - 1"
  shows "(found_steps (listdir e) = [] \<longrightarrow>
            get_checkpoint_iterator e (Step s) model_dir skip_until stop_after True
              = Inl (ValueError (No_checkpoint_files_found model_dir)))
       \<and> (found_steps (listdir e) \<noteq> [] \<longrightarrow>
            (\<exists>c \<in> set (found_steps (listdir e)).
               get_checkpoint_iterator e (Step s) model_dir skip_until stop_after True
                 = Inr [get_checkpoint_path model_dir c]
               \<and> (\<forall>c' \<in> set (found_steps (listdir e)). \<bar>s - c\<bar> \<le> \<bar>s - c'\<bar>)))
       \<and> (set (found_steps (listdir e)) = {10, 20, 35} \<longrightarrow>
            get_checkpoint_iterator e (Step 28) model_dir skip_until stop_after True
              = Inr [get_checkpoint_path model_dir 35])"
proof -
  have r: "get_checkpoint_iterator e (Step t) model_dir skip_until stop_after True
      = bind_err (get_closest_checkpoint e model_dir t)
          (\<lambda>closest. Inr [get_checkpoint_path model_dir closest])" if "t \<noteq> - 1" for t
    using that by (simp add: get_checkpoint_iterator_def)
  have g: "(found_steps (listdir e) = [] \<longrightarrow>
            get_checkpoint_iterator e (Step t) model_dir skip_until stop_after True
              = Inl (ValueError (No_checkpoint_files_found model_dir)))
       \<and> (found_steps (listdir e) \<noteq> [] \<longrightarrow>
            (\<exists>c \<in> set (found_steps (listdir e)).
               get_checkpoint_iterator e (Step t) model_dir skip_until stop_after True
                 = Inr [get_checkpoint_path model_dir c]
               \<and> (\<forall>c' \<in> set (found_steps (listdir e)). \<bar>t - c\<bar> \<le> \<bar>t - c'\<bar>)))"
    if "t \<noteq> - 1" for t
    using get_closest_checkpoint_min [OF assms(1), of model_dir t] r [OF that]
    by (auto simp: bind_err_def)
  have "get_checkpoint_iterator e (Step 28) model_dir skip_until stop_after True
              = Inr [get_checkpoint_path model_dir 35]"
    if h: "set (found_steps (listdir e)) = {10, 20, 35}"
  proof -
    from h have ne: "found_steps (listdir e) \<noteq> []" by auto
    have n28: "(28::int) \<noteq> - 1" by simp
    from g [OF n28] ne have "\<exists>c \<in> set (found_steps (listdir e)).
        get_checkpoint_iterator e (Step 28) model_dir skip_until stop_after True
          = Inr [get_checkpoint_path model_dir c]
        \<and> (\<forall>c' \<in> set (found_steps (listdir e)). \<bar>28 - c\<bar> \<le> \<bar>28 - c'\<bar>)" by blast
    then obtain c where c: "c \<in> set (found_steps (listdir e))"
      "get_checkpoint_iterator e (Step 28) model_dir skip_until stop_after True
         = Inr [get_checkpoint_path model_dir c]"
      "\<forall>c' \<in> set (found_steps (listdir e)). \<bar>28 - c\<bar> \<le> \<bar>28 - c'\<bar>" by blast
    from c(3) h have "\<bar>28 - c\<bar> \<le> \<bar>28 - 35\<bar>" by blast
    moreover from c(1) h have "c = 10 \<or> c = 20 \<or> c = 35" by blast
    ultimately have "c = 35" by auto
    with c(2) show ?thesis by simp
  qed
  with g [OF assms(2)] show ?thesis by blast
qed

text \<open>
  Claim C7, an instance: the directory holds \<^verbatim>\<open>checkpoint\<close> and the index files of steps
  10, 20 and 35; the requested step is 28.
\<close>

theorem closest_single_step_witness:
  "get_checkpoint_iterator
     \<lparr>listdir = [''checkpoint'', ''model.ckpt-10.index'', ''model.ckpt-20.index'',
                 ''model.ckpt-35.index''],
      checkpoint_exists = (\<lambda>p. False), latest_checkpoint = ''d/model.ckpt-35'',
      checkpoints_iterator = [], set_order = remdups,
      glob_pattern = (\<lambda>p. []), np_unique_wide = (\<lambda>xs. [])\<rparr>
     (Step 28) ''d'' 0 None True
   = Inr [''d/model.ckpt-35'']"
proof -
  let ?e = "\<lparr>listdir = [''checkpoint'', ''model.ckpt-10.index'', ''model.ckpt-20.index'',
                 ''model.ckpt-35.index''],
      checkpoint_exists = (\<lambda>p. False), latest_checkpoint = ''d/model.ckpt-35'',
      checkpoints_iterator = [], set_order = remdups,
      glob_pattern = (\<lambda>p. []), np_unique_wide = (\<lambda>xs. [])\<rparr>"
  have so: "\<forall>xs. set (set_order ?e xs) = set xs" by simp
  have ne: "(28::int) \<noteq> - 1" by simp
  have "found_steps [''checkpoint'', ''model.ckpt-10.index'', ''model.ckpt-20.index'',
                 ''model.ckpt-35.index''] = [10, 20, 35]" by code_simp
  then have f: "set (found_steps (listdir ?e)) = {10, 20, 35}" by simp
  have p: "get_checkpoint_path ''d'' 35 = ''d/model.ckpt-35''" by code_simp
  from closest_single_step_minimizes [OF so ne, of "''d''" 0 None] f p show ?thesis by simp
qed

section \<open>Lists of steps\<close>

lemma map_err_all_Inr:
  "\<forall>x \<in> set xs. g x = Inr (f x) \<Longrightarrow> map_err g xs = Inr (map f xs)"
  by (induction xs) (simp_all add: bind_err_def)

text \<open>
  Claim C6, as stated, fails in exact mode. With the checkpoints of steps 10 and 20
  present, the request \<open>[20, 10, 10]\<close> is answered in the order of the request and with
  the repetition: step 20, step 10, step 10.
\<close>

theorem step_list_exact_counterexample:
  "get_checkpoint_iterator
     \<lparr>listdir = [''model.ckpt-10.index'', ''model.ckpt-20.index''],
      checkpoint_exists = (\<lambda>p. p = ''d/model.ckpt-10'' \<or> p = ''d/model.ckpt-20''),
      latest_checkpoint = ''d/model.ckpt-20'', checkpoints_iterator = [],
      set_order = remdups,
      glob_pattern = (\<lambda>p. []), np_unique_wide = (\<lambda>xs. [])\<rparr>
     (Steps [20, 10, 10]) ''d'' 0 None False
   = Inr [''d/model.ckpt-20'', ''d/model.ckpt-10'', ''d/model.ckpt-10'']"
  by code_simp

lemma found_steps_nonneg: "c \<in> set (found_steps files) \<Longrightarrow> 0 \<le> c"
  by (auto simp: found_steps_def get_step_from_checkpoint_path_def int_of_digits_def
      split: option.splits sum.splits)

lemma checkpoint_path_named_str:
  "checkpoint_path_named model_dir (py_str c) = get_checkpoint_path model_dir c"
  by (simp add: checkpoint_path_named_def get_checkpoint_path_def)

text \<open>
  Claim C6, amended. For a list of steps the closest mode applies the rule of the single
  step to every element. When the directory carries a step at all and every step found
  in it is below \<open>2^63\<close> (so that numpy holds the steps as 64-bit integers), it returns the
  identifiers of the resulting steps without repetition and in ascending order of step.
  The exact mode returns the identifiers of the requested steps whose checkpoint exists,
  in the order of the request and with its repetitions; it raises when none exists.
\<close>

theorem step_list_closest_and_exact:
  assumes "\<forall>xs. set (set_order e xs) = set xs"
  shows "(found_steps (listdir e) \<noteq> [] \<and> (\<forall>c \<in> set (found_steps (listdir e)). c < 2 ^ 63) \<longrightarrow>
           (\<exists>cs. get_checkpoint_iterator e (Steps ss) model_dir skip_until stop_after True
                    = Inr (map (get_checkpoint_path model_dir) cs)
                  \<and> sorted cs \<and> distinct cs
                  \<and> set cs = {c. \<exists>t \<in> set ss. get_closest_checkpoint e model_dir t = Inr c}))
       \<and> get_checkpoint_iterator e (Steps ss) model_dir skip_until stop_after False
           = (if filter (\<lambda>t. checkpoint_exists e (get_checkpoint_path model_dir t)) ss = []
              then Inl (ValueError None_were_found)
              else Inr (map (get_checkpoint_path model_dir)
                     (filter (\<lambda>t. checkpoint_exists e (get_checkpoint_path model_dir t)) ss)))"
proof -
  have ex: "get_checkpoint_iterator e (Steps ss) model_dir skip_until stop_after False
           = (if filter (\<lambda>t. checkpoint_exists e (get_checkpoint_path model_dir t)) ss = []
              then Inl (ValueError None_were_found)
              else Inr (map (get_checkpoint_path model_dir)
                     (filter (\<lambda>t. checkpoint_exists e (get_checkpoint_path model_dir t)) ss)))"
    by (simp add: get_checkpoint_iterator_def exact_checkpoints_def filter_map comp_def)
  have cl: "\<exists>cs. get_checkpoint_iterator e (Steps ss) model_dir skip_until stop_after True
                    = Inr (map (get_checkpoint_path model_dir) cs)
                  \<and> sorted cs \<and> distinct cs
                  \<and> set cs = {c. \<exists>t \<in> set ss. get_closest_checkpoint e model_dir t = Inr c}"
    if ne: "found_steps (listdir e) \<noteq> []"
      and bd: "\<forall>c \<in> set (found_steps (listdir e)). c < 2 ^ 63"
  proof -
    have "\<forall>t. \<exists>c. c \<in> set (found_steps (listdir e))
        \<and> get_closest_checkpoint e model_dir t = Inr c"
      using get_closest_checkpoint_min [OF assms, of model_dir] ne by blast
    then obtain f where f: "\<And>t. f t \<in> set (found_steps (listdir e))"
      "\<And>t. get_closest_checkpoint e model_dir t = Inr (f t)" by metis
    have "in_int64 (f t)" for t
    proof -
      from f(1) [of t] bd have "f t < 2 ^ 63" by blast
      moreover from f(1) [of t] have "0 \<le> f t" by (rule found_steps_nonneg)
      ultimately show ?thesis by (simp add: in_int64_def)
    qed
    then have w: "list_all in_int64 (map f ss)" by (simp add: list_all_iff)
    from f(2) have "map_err (get_closest_checkpoint e model_dir) ss = Inr (map f ss)"
      by (intro map_err_all_Inr) simp
    then have "get_checkpoint_iterator e (Steps ss) model_dir skip_until stop_after True
        = Inr (map (get_checkpoint_path model_dir) (sort (remdups (map f ss))))"
      using w by (simp add: get_checkpoint_iterator_def bind_err_def np_unique_str_def
          comp_def checkpoint_path_named_str)
    moreover have "set (sort (remdups (map f ss)))
        = {c. \<exists>t \<in> set ss. get_closest_checkpoint e model_dir t = Inr c}"
      using f(2) by auto
    ultimately show ?thesis by (intro exI [of _ "sort (remdups (map f ss))"]) simp
  qed
  from ex cl show ?thesis by blast
qed

text \<open>
  Claim C6, an instance: steps 10, 20 and 35 in the directory, of which 10 and 20 exist
  as checkpoints; the request is \<open>[28, 9, 30]\<close> in closest mode and \<open>[20, 7, 10]\<close> in
  exact mode.
\<close>

theorem step_list_witness:
  "found_steps [''model.ckpt-10.index'', ''model.ckpt-20.index'', ''model.ckpt-35.index'']
     \<noteq> []
   \<and> get_checkpoint_iterator
     \<lparr>listdir = [''model.ckpt-10.index'', ''model.ckpt-20.index'', ''model.ckpt-35.index''],
      checkpoint_exists = (\<lambda>p. p = ''d/model.ckpt-10'' \<or> p = ''d/model.ckpt-20''),
      latest_checkpoint = ''d/model.ckpt-35'', checkpoints_iterator = [],
      set_order = remdups,
      glob_pattern = (\<lambda>p. []), np_unique_wide = (\<lambda>xs. [])\<rparr>
     (Steps [28, 9, 30]) ''d'' 0 None True
   = Inr (map (get_checkpoint_path ''d'') [10, 35])
   \<and> get_checkpoint_iterator
     \<lparr>listdir = [''model.ckpt-10.index'', ''model.ckpt-20.index'', ''model.ckpt-35.index''],
      checkpoint_exists = (\<lambda>p. p = ''d/model.ckpt-10'' \<or> p = ''d/model.ckpt-20''),
      latest_checkpoint = ''d/model.ckpt-35'', checkpoints_iterator = [],
      set_order = remdups,
      glob_pattern = (\<lambda>p. []), np_unique_wide = (\<lambda>xs. [])\<rparr>
     (Steps [20, 7, 10]) ''d'' 0 None False
   = Inr [''d/model.ckpt-20'', ''d/model.ckpt-10'']"
proof -
  let ?e = "\<lparr>listdir = [''model.ckpt-10.index'', ''model.ckpt-20.index'', ''model.ckpt-35.index''],
      checkpoint_exists = (\<lambda>p. p = ''d/model.ckpt-10'' \<or> p = ''d/model.ckpt-20''),
      latest_checkpoint = ''d/model.ckpt-35'', checkpoints_iterator = [],
      set_order = remdups,
      glob_pattern = (\<lambda>p. []), np_unique_wide = (\<lambda>xs. [])\<rparr>"
  have so: "\<forall>xs. set (set_order ?e xs) = set xs" by simp
  have p: "get_checkpoint_path ''d'' 20 = ''d/model.ckpt-20''"
    "get_checkpoint_path ''d'' 7 = ''d/model.ckpt-7''"
    "get_checkpoint_path ''d'' 10 = ''d/model.ckpt-10''" by code_simp+
  have fs: "found_steps [''model.ckpt-10.index'', ''model.ckpt-20.index'',
      ''model.ckpt-35.index''] = [10, 20, 35]" by code_simp
  then have ne: "found_steps (listdir ?e) \<noteq> []"
    "\<forall>c \<in> set (found_steps (listdir ?e)). c < 2 ^ 63" by simp_all
  have g: "get_closest_checkpoint ?e ''d'' 28 = Inr 35"
    "get_closest_checkpoint ?e ''d'' 9 = Inr 10"
    "get_closest_checkpoint ?e ''d'' 30 = Inr 35"
    by (simp_all add: get_closest_checkpoint_def fs closer_def)
  then have S: "{c. \<exists>t \<in> set [28, 9, 30]. get_closest_checkpoint ?e ''d'' t = Inr c} = {10, 35}"
    by auto
  note t = step_list_closest_and_exact [OF so, of _ "''d''" 0 None]
  from t [of "[28, 9, 30]"] ne S obtain cs where cs:
    "get_checkpoint_iterator ?e (Steps [28, 9, 30]) ''d'' 0 None True
       = Inr (map (get_checkpoint_path ''d'') cs)"
    "sorted cs" "distinct cs" "set cs = {10, 35}" by auto
  have "sorted [10, 35::int]" "distinct [10, 35::int]" "set cs = set [10, 35::int]"
    using cs(4) by auto
  with cs(2,3) have "cs = [10, 35]" by (intro sorted_distinct_set_unique)
  with cs(1) t [of "[20, 7, 10]"] p fs show ?thesis by simp
qed

section \<open>Substrings and tokens\<close>

lemma startswith_iff: "startswith s p \<longleftrightarrow> (\<exists>post. s = p @ post)"
proof
  assume "startswith s p"
  then have "s = p @ drop (length p) s"
    unfolding startswith_def by (metis append_take_drop_id)
  then show "\<exists>post. s = p @ post" by blast
next
  assume "\<exists>post. s = p @ post"
  then show "startswith s p" by (auto simp: startswith_def)
qed

lemma py_in_iff: "py_in sub s \<longleftrightarrow> (\<exists>pre post. s = pre @ sub @ post)"
proof (induction s)
  case Nil
  then show ?case by simp
next
  case (Cons c cs)
  show ?case
  proof
    assume "py_in sub (c # cs)"
    then consider "startswith (c # cs) sub" | "py_in sub cs" by auto
    then show "\<exists>pre post. c # cs = pre @ sub @ post"
    proof cases
      case 1
      then obtain post where "c # cs = sub @ post" by (auto simp: startswith_iff)
      then have "c # cs = [] @ sub @ post" by simp
      then show ?thesis by blast
    next
      case 2
      with Cons.IH obtain pre post where "cs = pre @ sub @ post" by blast
      then have "c # cs = (c # pre) @ sub @ post" by simp
      then show ?thesis by blast
    qed
  next
    assume "\<exists>pre post. c # cs = pre @ sub @ post"
    then obtain pre post where e: "c # cs = pre @ sub @ post" by blast
    show "py_in sub (c # cs)"
    proof (cases pre)
      case Nil
      with e have "startswith (c # cs) sub" by (auto simp: startswith_iff)
      then show ?thesis by simp
    next
      case (Cons a pre')
      with e have "cs = pre' @ sub @ post" by simp
      with Cons.IH have "py_in sub cs" by blast
      then show ?thesis by simp
    qed
  qed
qed

lemma py_in_suffix: "py_in sub rest \<Longrightarrow> py_in sub (pre @ rest)"
  by (metis py_in_iff append.assoc)

lemma py_in_drop: "py_in sub (drop n s) \<Longrightarrow> py_in sub s"
  using py_in_suffix [of sub "drop n s" "take n s"] by simp

lemma tok_group_eq: "length g = 3 \<Longrightarrow> tok_group tok (tok @ g @ rest) = g"
  by (simp add: tok_group_def)

lemma tok_at_iff:
  "tok_at tok s \<longleftrightarrow> (\<exists>g rest. s = tok @ g @ rest \<and> length g = 3 \<and> list_all is_digit g)"
proof
  assume t: "tok_at tok s"
  then obtain r where r: "s = tok @ r" by (auto simp: tok_at_def startswith_iff)
  with t have "length (take 3 r) = 3" "list_all is_digit (take 3 r)"
    by (simp_all add: tok_at_def tok_group_def)
  moreover have "s = tok @ take 3 r @ drop 3 r" using r by simp
  ultimately show "\<exists>g rest. s = tok @ g @ rest \<and> length g = 3 \<and> list_all is_digit g" by blast
next
  assume "\<exists>g rest. s = tok @ g @ rest \<and> length g = 3 \<and> list_all is_digit g"
  then show "tok_at tok s"
    by (auto simp: tok_at_def startswith_iff tok_group_def)
qed

lemma tok_at_group:
  "tok_at tok s \<Longrightarrow> length (tok_group tok s) = 3 \<and> list_all is_digit (tok_group tok s)
     \<and> py_in (tok @ tok_group tok s) s"
proof -
  assume t: "tok_at tok s"
  then obtain g rest where s: "s = tok @ g @ rest" "length g = 3" "list_all is_digit g"
    by (auto simp: tok_at_iff)
  then have "tok_group tok s = g" by (simp add: tok_group_eq)
  moreover have "py_in (tok @ g) s"
    unfolding py_in_iff using s(1) by (intro exI [of _ "[]"] exI [of _ rest]) simp
  ultimately show ?thesis using s by simp
qed

lemma findall_tok_sound:
  "g \<in> set (findall_tok tok s) \<Longrightarrow>
     length g = 3 \<and> list_all is_digit g \<and> py_in (tok @ g) s"
proof (induction tok s rule: findall_tok.induct)
  case (1 tok)
  then show ?case by simp
next
  case (2 tok c cs)
  show ?case
  proof (cases "tok_at tok (c # cs)")
    case True
    with "2.prems" consider "g = tok_group tok (c # cs)"
      | "g \<in> set (findall_tok tok (drop (length tok + 3) (c # cs)))" by auto
    then show ?thesis
    proof cases
      case 1
      with tok_at_group [OF True] show ?thesis by simp
    next
      case 2
      with "2.IH"(1) [OF True] have "length g = 3 \<and> list_all is_digit g
          \<and> py_in (tok @ g) (drop (length tok + 3) (c # cs))" by blast
      then show ?thesis using py_in_drop by blast
    qed
  next
    case False
    with "2.prems" have "g \<in> set (findall_tok tok cs)" by simp
    with "2.IH"(2) [OF False] have "length g = 3 \<and> list_all is_digit g \<and> py_in (tok @ g) cs"
      by blast
    then show ?thesis by simp
  qed
qed

lemma last_tok_sound:
  "last_tok tok s = Some (d, rest) \<Longrightarrow>
     length d = 3 \<and> list_all is_digit d \<and> py_in (tok @ d) s \<and> (\<exists>pre. s = pre @ rest)"
proof (induction s)
  case Nil
  then show ?case by simp
next
  case (Cons c cs)
  show ?case
  proof (cases "if c = newline then None else last_tok tok cs")
    case None
    with Cons.prems have t: "tok_at tok (c # cs)" and d: "d = tok_group tok (c # cs)"
      and r: "rest = drop (length tok + 3) (c # cs)" by (auto split: if_splits)
    have "c # cs = take (length tok + 3) (c # cs) @ rest" using r by simp
    then have "\<exists>pre. c # cs = pre @ rest" by blast
    with tok_at_group [OF t] d show ?thesis by simp
  next
    case (Some r)
    with Cons.prems have "last_tok tok cs = Some (d, rest)" by (auto split: if_splits)
    with Cons.IH have i: "length d = 3 \<and> list_all is_digit d \<and> py_in (tok @ d) cs
        \<and> (\<exists>pre. cs = pre @ rest)" by blast
    then obtain pre where "cs = pre @ rest" by blast
    then have "c # cs = (c # pre) @ rest" by simp
    then have "\<exists>pre. c # cs = pre @ rest" by blast
    with i show ?thesis by simp
  qed
qed

lemma findall_prefixed_sound:
  "g \<in> set (findall_prefixed pfx tok s) \<Longrightarrow>
     length g = 3 \<and> list_all is_digit g \<and> py_in (tok @ g) s"
proof (induction pfx tok s rule: findall_prefixed.induct)
  case (1 pfx tok)
  then show ?case by simp
next
  case (2 pfx tok c cs)
  show ?case
  proof (cases "startswith (c # cs) pfx")
    case False
    with "2.prems" have "g \<in> set (findall_prefixed pfx tok cs)" by simp
    with "2.IH"(3) [OF False] show ?thesis by simp
  next
    case True
    show ?thesis
    proof (cases "last_tok tok (drop (length pfx) (c # cs))")
      case None
      with True "2.prems" have "g \<in> set (findall_prefixed pfx tok cs)" by simp
      with "2.IH"(1) [OF True None] show ?thesis by simp
    next
      case (Some x)
      obtain d rest where x: "x = (d, rest)" by (cases x)
      from last_tok_sound [of tok "drop (length pfx) (c # cs)" d rest] Some x
      have l: "length d = 3" "list_all is_digit d"
        "py_in (tok @ d) (drop (length pfx) (c # cs))"
        "\<exists>pre. drop (length pfx) (c # cs) = pre @ rest" by simp_all
      from True Some x "2.prems" consider "g = d" | "g \<in> set (findall_prefixed pfx tok rest)"
        by auto
      then show ?thesis
      proof cases
        case 1
        with l(1,2) py_in_drop [OF l(3)] show ?thesis by simp
      next
        case 2
        with "2.IH"(2) [OF True Some x [symmetric]]
        have i: "length g = 3 \<and> list_all is_digit g \<and> py_in (tok @ g) rest" by blast
        from l(4) obtain pre where "drop (length pfx) (c # cs) = pre @ rest" by blast
        with i have "py_in (tok @ g) (drop (length pfx) (c # cs))"
          using py_in_suffix [of "tok @ g" rest pre] by simp
        with i show ?thesis using py_in_drop by blast
      qed
    qed
  qed
qed

lemma re_findall_sound:
  "g \<in> set (re_findall pfx tok s) \<Longrightarrow>
     length g = 3 \<and> list_all is_digit g \<and> py_in (tok @ g) s"
  by (cases pfx) (auto simp: re_findall_def dest: findall_tok_sound findall_prefixed_sound)

lemma tok_no_overlap:
  assumes "tok = t0 # ts" "t0 \<notin> set ts" "\<not> is_digit t0"
    and "tok @ g' @ rest' = pre @ tok @ g @ post" "length g' = 3" "list_all is_digit g'"
    and "pre \<noteq> []"
  shows "length tok + 3 \<le> length pre"
proof (rule ccontr)
  assume "\<not> length tok + 3 \<le> length pre"
  then have lt: "length pre < length tok + 3" by simp
  have "(pre @ tok @ g @ post) ! length pre = t0" using assms(1) by (simp add: nth_append)
  with assms(4) have a: "(tok @ g' @ rest') ! length pre = t0" by simp
  from assms(7) obtain k where k: "length pre = Suc k" by (cases pre) auto
  show False
  proof (cases "length pre < length tok")
    case True
    then have "(tok @ g' @ rest') ! length pre = tok ! length pre" by (simp add: nth_append)
    also have "\<dots> = ts ! k" using assms(1) k by simp
    finally have "t0 = ts ! k" using a by simp
    moreover have "k < length ts" using True assms(1) k by simp
    ultimately show False using assms(2) by (metis nth_mem)
  next
    case False
    have i: "length pre - length tok < length g'" using lt False assms(5) by simp
    from False have "(tok @ g' @ rest') ! length pre = (g' @ rest') ! (length pre - length tok)"
      by (simp add: nth_append)
    also have "\<dots> = g' ! (length pre - length tok)" using i by (simp add: nth_append)
    finally have "(tok @ g' @ rest') ! length pre = g' ! (length pre - length tok)" .
    moreover have "is_digit (g' ! (length pre - length tok))"
      using assms(6) i by (simp add: list_all_length)
    ultimately show False using a assms(3) by simp
  qed
qed

lemma findall_tok_complete:
  "tok = t0 # ts \<Longrightarrow> t0 \<notin> set ts \<Longrightarrow> \<not> is_digit t0 \<Longrightarrow>
   s = pre @ tok @ g @ post \<Longrightarrow> length g = 3 \<Longrightarrow> list_all is_digit g \<Longrightarrow>
   g \<in> set (findall_tok tok s)"
proof (induction tok s arbitrary: pre rule: findall_tok.induct)
  case (1 tok)
  then show ?case by simp
next
  case (2 tok c cs)
  show ?case
  proof (cases "tok_at tok (c # cs)")
    case True
    then obtain g' rest' where g': "c # cs = tok @ g' @ rest'" "length g' = 3"
      "list_all is_digit g'" by (auto simp: tok_at_iff)
    show ?thesis
    proof (cases "pre = []")
      case True
      with "2.prems"(4) g'(1) have "g' @ rest' = g @ post" by simp
      with g'(2) "2.prems"(5) have "g' = g" by simp
      with g'(1,2) have "tok_group tok (c # cs) = g" by (simp add: tok_group_eq)
      with \<open>tok_at tok (c # cs)\<close> show ?thesis by simp
    next
      case False
      from "2.prems"(4) g'(1) have e: "tok @ g' @ rest' = pre @ tok @ g @ post" by simp
      have le: "length tok + 3 \<le> length pre"
        by (rule tok_no_overlap [OF "2.prems"(1-3) e g'(2,3) False])
      then have "drop (length tok + 3) (c # cs)
          = drop (length tok + 3) pre @ tok @ g @ post"
        using "2.prems"(4) by simp
      from "2.IH"(1) [OF True "2.prems"(1-3) this "2.prems"(5,6)]
      have "g \<in> set (findall_tok tok (drop (length tok + 3) (c # cs)))" .
      with True show ?thesis by simp
    qed
  next
    case False
    have "pre \<noteq> []"
    proof
      assume "pre = []"
      with "2.prems"(4-6) have "tok_at tok (c # cs)" by (auto simp: tok_at_iff)
      with False show False by simp
    qed
    then obtain a pre' where "pre = a # pre'" by (cases pre) auto
    with "2.prems"(4) have "cs = pre' @ tok @ g @ post" by simp
    from "2.IH"(2) [OF False "2.prems"(1-3) this "2.prems"(5,6)]
    have "g \<in> set (findall_tok tok cs)" .
    with False show ?thesis by simp
  qed
qed

lemma findall_tok_layer_block:
  assumes "tok = ''layer_'' \<or> tok = ''block_''"
    and "py_in (tok @ g) s" "length g = 3" "list_all is_digit g"
  shows "g \<in> set (findall_tok tok s)"
proof -
  from assms(2) obtain pre post where s: "s = pre @ tok @ g @ post"
    by (auto simp: py_in_iff)
  from assms(1) show ?thesis
  proof
    assume "tok = ''layer_''"
    then have "tok = CHR ''l'' # ''ayer_''" by simp
    moreover have "CHR ''l'' \<notin> set ''ayer_''" by simp
    moreover have "\<not> is_digit (CHR ''l'')" by (simp add: is_digit_def)
    ultimately show ?thesis using s assms(3,4) by (rule findall_tok_complete)
  next
    assume "tok = ''block_''"
    then have "tok = CHR ''b'' # ''lock_''" by simp
    moreover have "CHR ''b'' \<notin> set ''lock_''" by simp
    moreover have "\<not> is_digit (CHR ''b'')" by (simp add: is_digit_def)
    ultimately show ?thesis using s assms(3,4) by (rule findall_tok_complete)
  qed
qed

lemma get_max_set:
  "get_max_layer_or_block_num pfx tok names =
     Max (insert (- 1) ((\<lambda>num. int_of_digits num + 1) `
       (\<Union>v \<in> set names. set (re_findall pfx tok v))))"
  by (simp add: get_max_layer_or_block_num_def Let_def)

lemma get_max_ge:
  assumes "v \<in> set names" "g \<in> set (re_findall pfx tok v)"
  shows "int_of_digits g + 1 \<le> get_max_layer_or_block_num pfx tok names"
proof -
  have "int_of_digits g + 1 \<in> insert (- 1) ((\<lambda>num. int_of_digits num + 1) `
       (\<Union>v \<in> set names. set (re_findall pfx tok v)))" using assms by blast
  then show ?thesis unfolding get_max_set by (intro Max_ge) simp_all
qed

lemma get_max_in:
  "get_max_layer_or_block_num pfx tok names = - 1 \<or>
   (\<exists>v \<in> set names. \<exists>g \<in> set (re_findall pfx tok v).
      get_max_layer_or_block_num pfx tok names = int_of_digits g + 1)"
proof -
  have "Max (insert (- 1) ((\<lambda>num. int_of_digits num + 1) `
       (\<Union>v \<in> set names. set (re_findall pfx tok v))))
     \<in> insert (- 1) ((\<lambda>num. int_of_digits num + 1) `
       (\<Union>v \<in> set names. set (re_findall pfx tok v)))"
    by (intro Max_in) simp_all
  then show ?thesis unfolding get_max_set by blast
qed

lemma get_max_none:
  "\<forall>v \<in> set names. re_findall pfx tok v = [] \<Longrightarrow>
     get_max_layer_or_block_num pfx tok names = - 1"
  using get_max_in [of pfx tok names] by auto

section \<open>What the StructureInferer counts\<close>

text \<open>
  Claim C4, as stated, fails for numbers of more than three digits. The pattern
  \<^verbatim>\<open>layer_(\d{3})\<close> ends behind the third digit and asks nothing of what follows, so the
  name \<^verbatim>\<open>layer_1000/kernel\<close> matches with the group \<^verbatim>\<open>100\<close> and the inferred layer count is
  101; likewise \<^verbatim>\<open>block_1234\<close> counts as block 123.
\<close>

theorem structure_inferer_four_digit_counterexample:
  "compute_num_blocks_and_layer [''layer_1000/kernel''] = ([None], [101])
   \<and> compute_num_blocks_and_layer [''block_1234/layer_000/kernel''] = ([Some 124], [1])"
  by code_simp

text \<open>
  Claim C4, amended. For every pattern of the StructureInferer (a token, with or without
  a sub-tree prefix) and every list of names, the inferred count is \<open>-1\<close> or one plus the
  number spelled by three digits that follow the token in some name: a token followed by
  fewer than three digits is never counted. For the patterns without prefix, every place
  where \<^verbatim>\<open>layer_\<close> or \<^verbatim>\<open>block_\<close> is followed by three digits counts, so a longer number
  counts through its first three digits.
\<close>

theorem structure_inferer_three_digit_tokens:
  "(get_max_layer_or_block_num pfx tok names = - 1 \<or>
      (\<exists>v \<in> set names. \<exists>g. length g = 3 \<and> list_all is_digit g \<and> py_in (tok @ g) v
         \<and> get_max_layer_or_block_num pfx tok names = int_of_digits g + 1))
   \<and> ((tok = ''layer_'' \<or> tok = ''block_'') \<and> v \<in> set names \<and> length g = 3
        \<and> list_all is_digit g \<and> py_in (tok @ g) v \<longrightarrow>
      int_of_digits g + 1 \<le> get_max_layer_or_block_num None tok names)"
proof -
  have a: "get_max_layer_or_block_num pfx tok names = - 1 \<or>
      (\<exists>v \<in> set names. \<exists>g. length g = 3 \<and> list_all is_digit g \<and> py_in (tok @ g) v
         \<and> get_max_layer_or_block_num pfx tok names = int_of_digits g + 1)"
  proof -
    from get_max_in [of pfx tok names]
    consider "get_max_layer_or_block_num pfx tok names = - 1"
      | v' g' where "v' \<in> set names" "g' \<in> set (re_findall pfx tok v')"
          "get_max_layer_or_block_num pfx tok names = int_of_digits g' + 1" by blast
    then show ?thesis
    proof cases
      case 1
      then show ?thesis by simp
    next
      case 2
      from re_findall_sound [OF 2(2)] have "length g' = 3 \<and> list_all is_digit g'
          \<and> py_in (tok @ g') v'" .
      with 2(1,3) show ?thesis by blast
    qed
  qed
  have b: "int_of_digits g + 1 \<le> get_max_layer_or_block_num None tok names"
    if "tok = ''layer_'' \<or> tok = ''block_''" "v \<in> set names" "length g = 3"
      "list_all is_digit g" "py_in (tok @ g) v"
  proof -
    have "g \<in> set (re_findall None tok v)"
      using findall_tok_layer_block [OF that(1,5,3,4)] by (simp add: re_findall_def)
    with that(2) show ?thesis by (rule get_max_ge)
  qed
  from a b show ?thesis by blast
qed

text \<open>
  Claim C4, an instance: \<^verbatim>\<open>layer_1000/kernel\<close> holds \<^verbatim>\<open>layer_100\<close>, and with
  \<^verbatim>\<open>layer_12/bias\<close> beside it the count is 101 at least.
\<close>

theorem structure_inferer_witness:
  "py_in (''layer_'' @ ''100'') ''layer_1000/kernel''
   \<and> 101 \<le> get_max_layer_or_block_num None ''layer_'' [''layer_1000/kernel'', ''layer_12/bias'']"
proof -
  have p: "py_in (''layer_'' @ ''100'') ''layer_1000/kernel''" by code_simp
  have d: "list_all is_digit ''100''" by code_simp
  have i: "int_of_digits ''100'' = 100" by code_simp
  from structure_inferer_three_digit_tokens [of None "''layer_''" "[''layer_1000/kernel'', ''layer_12/bias'']"
      "''layer_1000/kernel''" "''100''"] p d i
  show ?thesis by simp
qed

section \<open>The remapping index\<close>

lemma dict_keys_Nil: "dict_keys [] = {}"
  by (simp add: dict_keys_def)

lemma dict_keys_dict_set: "dict_keys (dict_set d k v) = insert k (dict_keys d)"
  by (induction d k v rule: dict_set.induct) (simp_all add: dict_keys_def insert_commute)

lemma keys_inner:
  "dict_keys (fold (\<lambda>m d. if P m then dict_set d l c else d) ms d)
     = dict_keys d \<union> (if \<exists>m \<in> set ms. P m then {l} else {})"
  by (induction ms arbitrary: d) (auto simp: dict_keys_dict_set)

lemma keys_middle:
  "dict_keys (fold (\<lambda>l d. fold (\<lambda>m d. if P l m then dict_set d l c else d) ms d) ls d)
     = dict_keys d \<union> {l \<in> set ls. \<exists>m \<in> set ms. P l m}"
  by (induction ls arbitrary: d) (auto simp: keys_inner)

lemma keys_outer:
  "dict_keys (fold (\<lambda>c d.
       fold (\<lambda>l d. fold (\<lambda>m d. if P c l m then dict_set d l c else d) ms d) ls d) cs d)
     = dict_keys d \<union> {l \<in> set ls. \<exists>c \<in> set cs. \<exists>m \<in> set ms. P c l m}"
  by (induction cs arbitrary: d) (auto simp: keys_middle)

lemma filter_fn_iff:
  "filter_fn (graph_var_to_ckpt_var cs ls ms) v \<longleftrightarrow>
     v \<in> set ls \<and> (\<exists>c \<in> set cs. \<exists>m \<in> set ms. match_ckpt_to_local_var_name c v m)"
  by (simp add: filter_fn_def graph_var_to_ckpt_var_def keys_outer dict_keys_Nil)

lemma py_replace_same: "old = new \<Longrightarrow> py_replace old new s = s"
proof (induction old new s rule: py_replace.induct)
  case (1 old new)
  then show ?case by simp
next
  case (2 old new c cs)
  show ?case
  proof (cases "old = []")
    case True
    with 2 show ?thesis by simp
  next
    case False
    show ?thesis
    proof (cases "startswith (c # cs) old")
      case True
      from "2.IH"(2) [OF False True "2.prems"]
      have "py_replace old new (drop (length old) (c # cs)) = drop (length old) (c # cs)" .
      moreover from True have "old @ drop (length old) (c # cs) = c # cs"
        unfolding startswith_def by (metis append_take_drop_id)
      ultimately show ?thesis using False True "2.prems" by simp
    next
      case no: False
      with "2.IH"(3) [OF False no "2.prems"] False show ?thesis by simp
    qed
  qed
qed

lemma match_entries_same:
  "\<forall>e \<in> set m. fst e = snd e \<Longrightarrow> match_entries c v m \<Longrightarrow> c = v"
proof (induction m)
  case Nil
  then show ?case by simp
next
  case (Cons e m)
  obtain r r' where e: "e = (r, r')" by (cases e)
  with Cons.prems(1) have rr: "r' = r" by simp
  show ?case
  proof (cases "match_entries c v m")
    case True
    with Cons show ?thesis by simp
  next
    case False
    with Cons.prems(2) e rr have "py_replace
        (if py_in ''.*'' r then py_split ''.*'' r ! 1 else r)
        (if py_in ''.*'' r then py_split ''.*'' r ! 1 else r) c = v"
      by (simp add: Let_def split: if_splits)
    then show ?thesis by (simp add: py_replace_same)
  qed
qed

lemma match_same:
  "\<forall>e \<in> set m. fst e = snd e \<Longrightarrow> match_ckpt_to_local_var_name c v m \<Longrightarrow> c = v"
  by (auto simp: match_ckpt_to_local_var_name_def split: if_splits dest: match_entries_same)

lemma compute_single:
  "compute_num_blocks_and_layer names = (bs, [n]) \<Longrightarrow>
     get_max_layer_or_block_num None ''layer_'' names = n"
  by (simp add: compute_num_blocks_and_layer_def Let_def split: if_splits)

lemma mapping_3_of_4:
  "build_ckpt_to_local_var_name_mapping None 3 None 4 (Some [3]) None =
     Inr [(''layer_000'', ''layer_000''), (''layer_001'', ''layer_001''),
          (''layer_002'', ''layer_002'')]"
  by code_simp

text \<open>
  Claim C2. Let the StructureInferer find three layers and no blocks in the checkpoint's
  names, four layers and no blocks in the model's names, and let layer 3 be the new
  layer. The builder returns three entries, which pair the layers 0, 1 and 2 of the
  source with the layers 0, 1 and 2 of the target in order. The remapping index is built
  from that correspondence without an error, and no name that contains \<^verbatim>\<open>layer_003\<close> is
  restorable.
\<close>

theorem new_layer_skip:
  assumes "compute_num_blocks_and_layer ckpt_var_names = ([None], [3])"
    and "compute_num_blocks_and_layer local_var_names = ([None], [4])"
  shows "build_ckpt_to_local_var_name_mapping None 3 None 4 (Some [3]) None =
           Inr [(''layer_000'', ''layer_000''), (''layer_001'', ''layer_001''),
                (''layer_002'', ''layer_002'')]
       \<and> flexible_ckpt_init_mapping ckpt_var_names local_var_names (Some [[3]]) =
           Inr (graph_var_to_ckpt_var ckpt_var_names local_var_names
             [[(''layer_000'', ''layer_000''), (''layer_001'', ''layer_001''),
               (''layer_002'', ''layer_002'')]])
       \<and> (\<forall>v. py_in ''layer_003'' v \<longrightarrow>
             \<not> filter_fn (graph_var_to_ckpt_var ckpt_var_names local_var_names
               [[(''layer_000'', ''layer_000''), (''layer_001'', ''layer_001''),
                 (''layer_002'', ''layer_002'')]]) v)"
proof -
  let ?m = "[(''layer_000'', ''layer_000''), (''layer_001'', ''layer_001''),
             (''layer_002'', ''layer_002'')]"
  have f: "flexible_ckpt_init_mapping ckpt_var_names local_var_names (Some [[3]]) =
      Inr (graph_var_to_ckpt_var ckpt_var_names local_var_names [?m])"
    using assms mapping_3_of_4
    by (simp add: flexible_ckpt_init_mapping_def Let_def first_of_def index_err_def
        bind_err_def build_at_def)
  have n: "\<not> filter_fn (graph_var_to_ckpt_var ckpt_var_names local_var_names [?m]) v"
    if l: "py_in ''layer_003'' v" for v
  proof
    assume "filter_fn (graph_var_to_ckpt_var ckpt_var_names local_var_names [?m]) v"
    then obtain c where c: "c \<in> set ckpt_var_names" "match_ckpt_to_local_var_name c v ?m"
      by (auto simp: filter_fn_iff)
    have "\<forall>e \<in> set ?m. fst e = snd e" by simp
    from match_same [OF this c(2)] have "c = v" .
    with l have "py_in (''layer_'' @ ''003'') c" by simp
    moreover have "list_all is_digit ''003''" by (simp add: is_digit_def)
    ultimately have "''003'' \<in> set (re_findall None ''layer_'' c)"
      using findall_tok_layer_block [of "''layer_''" "''003''" c] by (simp add: re_findall_def)
    with c(1) have "int_of_digits ''003'' + 1
        \<le> get_max_layer_or_block_num None ''layer_'' ckpt_var_names" by (rule get_max_ge)
    moreover have "int_of_digits ''003'' = 3" by code_simp
    ultimately show False using compute_single [OF assms(1)] by simp
  qed
  from mapping_3_of_4 f n show ?thesis by blast
qed

text \<open>
  Claim C2, an instance: the checkpoint has one weight in each of the layers 0 to 2 and a
  global step, the model has the same and a weight in layer 3.
\<close>

theorem new_layer_skip_witness:
  "compute_num_blocks_and_layer [''layer_000/w'', ''layer_001/w'', ''layer_002/w'', ''global_step'']
     = ([None], [3])
   \<and> compute_num_blocks_and_layer
       [''layer_000/w'', ''layer_001/w'', ''layer_002/w'', ''layer_003/w'', ''global_step'']
     = ([None], [4])
   \<and> py_in ''layer_003'' ''layer_003/w''
   \<and> \<not> filter_fn (graph_var_to_ckpt_var
         [''layer_000/w'', ''layer_001/w'', ''layer_002/w'', ''global_step'']
         [''layer_000/w'', ''layer_001/w'', ''layer_002/w'', ''layer_003/w'', ''global_step'']
         [[(''layer_000'', ''layer_000''), (''layer_001'', ''layer_001''),
           (''layer_002'', ''layer_002'')]]) ''layer_003/w''"
proof -
  have a: "compute_num_blocks_and_layer
      [''layer_000/w'', ''layer_001/w'', ''layer_002/w'', ''global_step''] = ([None], [3])"
    by code_simp
  have b: "compute_num_blocks_and_layer
      [''layer_000/w'', ''layer_001/w'', ''layer_002/w'', ''layer_003/w'', ''global_step'']
      = ([None], [4])" by code_simp
  have c: "py_in ''layer_003'' ''layer_003/w''" by code_simp
  from new_layer_skip [OF a b] c a b show ?thesis by blast
qed

lemma py_range_neg: "py_range (- 1) = []"
  by (simp add: py_range_def)

lemma concat_map_Nil: "concat (map (\<lambda>x. []) xs) = []"
  by (induction xs) simp_all

lemma build_no_layers:
  "build_ckpt_to_local_var_name_mapping cb (- 1) lb (- 1) new p = Inr []"
  by (simp add: build_ckpt_to_local_var_name_mapping_def all_ckpt_name_regexes_def
      all_local_name_regexes_def py_range_neg concat_map_Nil Let_def)

lemma match_empty:
  "match_ckpt_to_local_var_name c v [] \<longleftrightarrow> c = v \<and> \<not> py_in ''layer'' v"
  by (auto simp: match_ckpt_to_local_var_name_def)

lemma compute_single_stack:
  "\<not> list_ex (\<lambda>var_name. startswith var_name ''encoder/'') names \<Longrightarrow>
   compute_num_blocks_and_layer names =
     ([if get_max_layer_or_block_num None ''block_'' names \<noteq> - 1
       then Some (get_max_layer_or_block_num None ''block_'' names) else None],
      [get_max_layer_or_block_num None ''layer_'' names])"
  by (simp add: compute_num_blocks_and_layer_def Let_def)

lemma compute_encoder_decoder:
  "list_ex (\<lambda>var_name. startswith var_name ''encoder/'') names \<Longrightarrow>
   compute_num_blocks_and_layer names =
     ([if get_max_layer_or_block_num (Some ''encoder/'') ''block_'' names \<noteq> - 1
       then Some (get_max_layer_or_block_num (Some ''encoder/'') ''block_'' names) else None,
       if get_max_layer_or_block_num (Some ''decoder/'') ''block_'' names \<noteq> - 1
       then Some (get_max_layer_or_block_num (Some ''decoder/'') ''block_'' names) else None],
      [get_max_layer_or_block_num (Some ''encoder/'') ''layer_'' names,
       get_max_layer_or_block_num (Some ''decoder/'') ''layer_'' names])"
  by (simp add: compute_num_blocks_and_layer_def Let_def)

lemma flexible_single_stack:
  assumes "\<not> list_ex (\<lambda>var_name. startswith var_name ''encoder/'') ckpt_var_names"
    and "\<not> list_ex (\<lambda>var_name. startswith var_name ''encoder/'') local_var_names"
    and "get_max_layer_or_block_num None ''layer_'' ckpt_var_names = - 1"
    and "get_max_layer_or_block_num None ''layer_'' local_var_names = - 1"
    and "new_layers = None \<or> (\<exists>l ls. new_layers = Some (l # ls))"
  shows "flexible_ckpt_init_mapping ckpt_var_names local_var_names new_layers =
     Inr (graph_var_to_ckpt_var ckpt_var_names local_var_names [[]])"
proof -
  from assms(5) have "\<exists>n. first_of new_layers = Inr n"
    by (auto simp: first_of_def index_err_def bind_err_def)
  then obtain n where "first_of new_layers = Inr n" by blast
  with assms(3,4) show ?thesis
    by (simp add: flexible_ckpt_init_mapping_def compute_single_stack [OF assms(1)]
        compute_single_stack [OF assms(2)] build_at_def index_err_def
        bind_err_def build_no_layers Let_def)
qed

lemma flexible_encoder_decoder:
  assumes "list_ex (\<lambda>var_name. startswith var_name ''encoder/'') ckpt_var_names"
    and "list_ex (\<lambda>var_name. startswith var_name ''encoder/'') local_var_names"
    and "get_max_layer_or_block_num (Some ''encoder/'') ''layer_'' ckpt_var_names = - 1"
    and "get_max_layer_or_block_num (Some ''encoder/'') ''layer_'' local_var_names = - 1"
    and "get_max_layer_or_block_num (Some ''decoder/'') ''layer_'' ckpt_var_names = - 1"
    and "get_max_layer_or_block_num (Some ''decoder/'') ''layer_'' local_var_names = - 1"
    and "new_layers = None \<or> (\<exists>a b. new_layers = Some [a, b])"
  shows "flexible_ckpt_init_mapping ckpt_var_names local_var_names new_layers =
     Inr (graph_var_to_ckpt_var ckpt_var_names local_var_names [[], []])"
proof -
  from assms(7) have "\<exists>a b. unpack2 new_layers = Inr (a, b)"
    by (auto simp: unpack2_def)
  then obtain a b where "unpack2 new_layers = Inr (a, b)" by blast
  with assms(3-6) show ?thesis
    by (simp add: flexible_ckpt_init_mapping_def compute_encoder_decoder [OF assms(1)]
        compute_encoder_decoder [OF assms(2)] build_at_def index_err_def
        bind_err_def build_no_layers Let_def)
qed

lemma index_of_empty_correspondences:
  "filter_fn (graph_var_to_ckpt_var ckpt_var_names local_var_names (replicate (Suc k) [])) v
     \<longleftrightarrow> v \<in> set local_var_names \<and> v \<in> set ckpt_var_names \<and> \<not> py_in ''layer'' v"
  by (auto simp: filter_fn_iff match_empty)

text \<open>
  Claim C10, as stated, fails for a model with two sub-trees. In the names
  \<^verbatim>\<open>encoder/emb\<close> and \<^verbatim>\<open>decoder/layer_000/w\<close>, on both sides, the layer pattern of the
  encoder sub-tree finds nothing, and the builder returns the empty correspondence for
  it. The index is built from the correspondences of both sub-trees, and through the
  decoder's it makes \<^verbatim>\<open>decoder/layer_000/w\<close> restorable, a name that contains \<^verbatim>\<open>layer\<close>.
\<close>

theorem no_layer_tokens_counterexample:
  "re_findall (Some ''encoder/'') ''layer_'' ''encoder/emb'' = []
   \<and> re_findall (Some ''encoder/'') ''layer_'' ''decoder/layer_000/w'' = []
   \<and> build_ckpt_to_local_var_name_mapping None (- 1) None (- 1) None (Some ''encoder/'') = Inr []
   \<and> flexible_ckpt_init_mapping [''encoder/emb'', ''decoder/layer_000/w'']
        [''encoder/emb'', ''decoder/layer_000/w''] None
      = Inr [(''encoder/emb'', ''encoder/emb''),
             (''decoder/layer_000/w'', ''decoder/layer_000/w'')]
   \<and> py_in ''layer'' ''decoder/layer_000/w''
   \<and> filter_fn [(''encoder/emb'', ''encoder/emb''),
                (''decoder/layer_000/w'', ''decoder/layer_000/w'')] ''decoder/layer_000/w''"
  by code_simp

text \<open>
  Claim C10, amended. Let the layer pattern of a sub-tree (the token \<^verbatim>\<open>layer_\<close> with three
  digits, behind the prefix of the sub-tree if it has one) find nothing in any name of
  the checkpoint and of the model. Then the inferred layer count of that sub-tree is
  \<open>-1\<close> on both sides, and with these counts the builder returns the empty correspondence
  and raises nothing, whatever the block counts and the new layers are. When this holds
  for every sub-tree (for the single stack, or for the encoder and the decoder, both
  name lists being of the same kind, and the list of new layers absent or of the shape
  that kind asks for), \<^verbatim>\<open>flexible_ckpt_init_mapping\<close> raises nothing, and the names that
  are restorable by its index are exactly the names of the model that are names of the
  checkpoint as well and do not contain the substring \<^verbatim>\<open>layer\<close>. A name in which no
  \<^verbatim>\<open>layer_\<close> is followed by three digits is one in which the pattern finds nothing.
\<close>

theorem no_layer_tokens_in_any_subtree:
  "((\<forall>v \<in> set ckpt_var_names \<union> set local_var_names. re_findall pfx ''layer_'' v = []) \<longrightarrow>
      get_max_layer_or_block_num pfx ''layer_'' ckpt_var_names = - 1
      \<and> get_max_layer_or_block_num pfx ''layer_'' local_var_names = - 1
      \<and> build_ckpt_to_local_var_name_mapping cb
           (get_max_layer_or_block_num pfx ''layer_'' ckpt_var_names) lb
           (get_max_layer_or_block_num pfx ''layer_'' local_var_names) new pfx = Inr [])
   \<and> (\<not> list_ex (\<lambda>var_name. startswith var_name ''encoder/'') ckpt_var_names
       \<and> \<not> list_ex (\<lambda>var_name. startswith var_name ''encoder/'') local_var_names
       \<and> (\<forall>v \<in> set ckpt_var_names \<union> set local_var_names. re_findall None ''layer_'' v = [])
       \<and> (new_layers = None \<or> (\<exists>l ls. new_layers = Some (l # ls))) \<longrightarrow>
      (\<exists>idx. flexible_ckpt_init_mapping ckpt_var_names local_var_names new_layers = Inr idx
         \<and> (\<forall>v. filter_fn idx v \<longleftrightarrow>
               v \<in> set local_var_names \<and> v \<in> set ckpt_var_names \<and> \<not> py_in ''layer'' v)))
   \<and> (list_ex (\<lambda>var_name. startswith var_name ''encoder/'') ckpt_var_names
       \<and> list_ex (\<lambda>var_name. startswith var_name ''encoder/'') local_var_names
       \<and> (\<forall>v \<in> set ckpt_var_names \<union> set local_var_names.
             re_findall (Some ''encoder/'') ''layer_'' v = []
             \<and> re_findall (Some ''decoder/'') ''layer_'' v = [])
       \<and> (new_layers = None \<or> (\<exists>a b. new_layers = Some [a, b])) \<longrightarrow>
      (\<exists>idx. flexible_ckpt_init_mapping ckpt_var_names local_var_names new_layers = Inr idx
         \<and> (\<forall>v. filter_fn idx v \<longleftrightarrow>
               v \<in> set local_var_names \<and> v \<in> set ckpt_var_names \<and> \<not> py_in ''layer'' v)))
   \<and> ((\<forall>g. length g = 3 \<and> list_all is_digit g \<longrightarrow> \<not> py_in (''layer_'' @ g) name) \<longrightarrow>
       re_findall pfx ''layer_'' name = [])"
proof -
  have m: "get_max_layer_or_block_num p ''layer_'' ckpt_var_names = - 1
      \<and> get_max_layer_or_block_num p ''layer_'' local_var_names = - 1"
    if "\<forall>v \<in> set ckpt_var_names \<union> set local_var_names. re_findall p ''layer_'' v = []" for p
    using that by (auto intro!: get_max_none)
  have a: "get_max_layer_or_block_num pfx ''layer_'' ckpt_var_names = - 1
      \<and> get_max_layer_or_block_num pfx ''layer_'' local_var_names = - 1
      \<and> build_ckpt_to_local_var_name_mapping cb
           (get_max_layer_or_block_num pfx ''layer_'' ckpt_var_names) lb
           (get_max_layer_or_block_num pfx ''layer_'' local_var_names) new pfx = Inr []"
    if "\<forall>v \<in> set ckpt_var_names \<union> set local_var_names. re_findall pfx ''layer_'' v = []"
    using m [OF that] by (simp add: build_no_layers)
  have b: "\<exists>idx. flexible_ckpt_init_mapping ckpt_var_names local_var_names new_layers = Inr idx
         \<and> (\<forall>v. filter_fn idx v \<longleftrightarrow>
               v \<in> set local_var_names \<and> v \<in> set ckpt_var_names \<and> \<not> py_in ''layer'' v)"
    if "\<not> list_ex (\<lambda>var_name. startswith var_name ''encoder/'') ckpt_var_names"
      "\<not> list_ex (\<lambda>var_name. startswith var_name ''encoder/'') local_var_names"
      "\<forall>v \<in> set ckpt_var_names \<union> set local_var_names. re_findall None ''layer_'' v = []"
      "new_layers = None \<or> (\<exists>l ls. new_layers = Some (l # ls))"
  proof -
    from m [OF that(3)] have "flexible_ckpt_init_mapping ckpt_var_names local_var_names
        new_layers = Inr (graph_var_to_ckpt_var ckpt_var_names local_var_names [[]])"
      by (intro flexible_single_stack [OF that(1,2) _ _ that(4)]) simp_all
    moreover have "\<forall>v. filter_fn (graph_var_to_ckpt_var ckpt_var_names local_var_names [[]]) v
        \<longleftrightarrow> v \<in> set local_var_names \<and> v \<in> set ckpt_var_names \<and> \<not> py_in ''layer'' v"
      using index_of_empty_correspondences [of ckpt_var_names local_var_names 0] by simp
    ultimately show ?thesis by blast
  qed
  have c: "\<exists>idx. flexible_ckpt_init_mapping ckpt_var_names local_var_names new_layers = Inr idx
         \<and> (\<forall>v. filter_fn idx v \<longleftrightarrow>
               v \<in> set local_var_names \<and> v \<in> set ckpt_var_names \<and> \<not> py_in ''layer'' v)"
    if "list_ex (\<lambda>var_name. startswith var_name ''encoder/'') ckpt_var_names"
      "list_ex (\<lambda>var_name. startswith var_name ''encoder/'') local_var_names"
      "\<forall>v \<in> set ckpt_var_names \<union> set local_var_names.
             re_findall (Some ''encoder/'') ''layer_'' v = []
             \<and> re_findall (Some ''decoder/'') ''layer_'' v = []"
      "new_layers = None \<or> (\<exists>a b. new_layers = Some [a, b])"
  proof -
    from that(3) have e: "\<forall>v \<in> set ckpt_var_names \<union> set local_var_names.
        re_findall (Some ''encoder/'') ''layer_'' v = []" by blast
    from that(3) have d: "\<forall>v \<in> set ckpt_var_names \<union> set local_var_names.
        re_findall (Some ''decoder/'') ''layer_'' v = []" by blast
    from m [OF e] m [OF d] have "flexible_ckpt_init_mapping ckpt_var_names local_var_names
        new_layers = Inr (graph_var_to_ckpt_var ckpt_var_names local_var_names [[], []])"
      by (intro flexible_encoder_decoder [OF that(1,2) _ _ _ _ that(4)]) simp_all
    moreover have "\<forall>v. filter_fn
          (graph_var_to_ckpt_var ckpt_var_names local_var_names [[], []]) v
        \<longleftrightarrow> v \<in> set local_var_names \<and> v \<in> set ckpt_var_names \<and> \<not> py_in ''layer'' v"
      using index_of_empty_correspondences [of ckpt_var_names local_var_names "Suc 0"]
      by simp
    ultimately show ?thesis by blast
  qed
  have d: "re_findall pfx ''layer_'' name = []"
    if "\<forall>g. length g = 3 \<and> list_all is_digit g \<longrightarrow> \<not> py_in (''layer_'' @ g) name"
  proof (cases "re_findall pfx ''layer_'' name")
    case Nil
    then show ?thesis .
  next
    case (Cons g gs)
    then have "g \<in> set (re_findall pfx ''layer_'' name)" by simp
    from re_findall_sound [OF this] that show ?thesis by blast
  qed
  from a b c d show ?thesis by blast
qed

text \<open>
  Claim C10, an instance with two sub-trees and no layer token: \<^verbatim>\<open>encoder/emb\<close> is
  restorable; \<^verbatim>\<open>decoder/player\<close> stands on both sides but contains \<^verbatim>\<open>layer\<close> and is not;
  \<^verbatim>\<open>decoder/head\<close> is not in the checkpoint.
\<close>

theorem no_layer_tokens_witness:
  "list_ex (\<lambda>var_name. startswith var_name ''encoder/'') [''encoder/emb'', ''decoder/player'']
   \<and> re_findall (Some ''encoder/'') ''layer_'' ''encoder/emb'' = []
   \<and> re_findall (Some ''decoder/'') ''layer_'' ''decoder/player'' = []
   \<and> get_max_layer_or_block_num (Some ''decoder/'') ''layer_''
        [''encoder/emb'', ''decoder/player''] = - 1
   \<and> (\<exists>idx. flexible_ckpt_init_mapping [''encoder/emb'', ''decoder/player'']
          [''encoder/emb'', ''decoder/player'', ''decoder/head''] None = Inr idx
        \<and> filter_fn idx ''encoder/emb''
        \<and> \<not> filter_fn idx ''decoder/player''
        \<and> \<not> filter_fn idx ''decoder/head'')"
proof -
  let ?c = "[''encoder/emb'', ''decoder/player'']"
  let ?l = "[''encoder/emb'', ''decoder/player'', ''decoder/head'']"
  have f: "re_findall (Some ''encoder/'') ''layer_'' ''encoder/emb'' = []"
    "re_findall (Some ''encoder/'') ''layer_'' ''decoder/player'' = []"
    "re_findall (Some ''encoder/'') ''layer_'' ''decoder/head'' = []"
    "re_findall (Some ''decoder/'') ''layer_'' ''encoder/emb'' = []"
    "re_findall (Some ''decoder/'') ''layer_'' ''decoder/player'' = []"
    "re_findall (Some ''decoder/'') ''layer_'' ''decoder/head'' = []" by code_simp+
  then have h: "\<forall>v \<in> set ?c \<union> set ?l. re_findall (Some ''encoder/'') ''layer_'' v = []
      \<and> re_findall (Some ''decoder/'') ''layer_'' v = []" by simp
  have hd: "\<forall>v \<in> set ?c \<union> set ?l. re_findall (Some ''decoder/'') ''layer_'' v = []"
    using f by simp
  have e: "list_ex (\<lambda>var_name. startswith var_name ''encoder/'') ?c"
    "list_ex (\<lambda>var_name. startswith var_name ''encoder/'') ?l" by code_simp+
  have l: "\<not> py_in ''layer'' ''encoder/emb''" "py_in ''layer'' ''decoder/player''"
    by code_simp+
  note t = no_layer_tokens_in_any_subtree [of ?c ?l "Some ''decoder/''" None None None None]
  from t hd have g: "get_max_layer_or_block_num (Some ''decoder/'') ''layer_'' ?c = - 1"
    by blast
  from t e h obtain idx where idx:
    "flexible_ckpt_init_mapping ?c ?l None = Inr idx"
    "\<forall>v. filter_fn idx v \<longleftrightarrow> v \<in> set ?l \<and> v \<in> set ?c \<and> \<not> py_in ''layer'' v" by blast
  from idx(2) l have "filter_fn idx ''encoder/emb''" "\<not> filter_fn idx ''decoder/player''"
    "\<not> filter_fn idx ''decoder/head''" by simp_all
  with idx(1) e(1) f g show ?thesis by blast
qed

end
